theory Spec2Isabelle
  imports Complex_Main "HOL-Library.Log_Nat"
begin

section \<open>Strings as Python uses them\<close>

text \<open>
  A string is a list of code points below 256 (Latin-1), one \<open>char\<close> each. On these
  \<open>str.lower\<close> maps \<open>A..Z\<close> and the letters \<open>U+00C0..U+00DE\<close> (but not the sign
  \<open>U+00D7\<close>) to the code point 32 higher, and \<open>str.strip()\<close> removes the code points for
  which \<open>str.isspace\<close> holds: \<open>U+0009..U+000D\<close>, \<open>U+001C..U+0020\<close>, \<open>U+0085\<close> and
  \<open>U+00A0\<close>. \<open>str.startswith\<close> is a prefix test and \<open>str.split(sep)\<close> takes a
  one-character separator.
\<close>

definition lower_char :: "char \<Rightarrow> char" where
  "lower_char c =
     (if (65 \<le> (of_char c :: nat) \<and> (of_char c :: nat) \<le> 90)
         \<or> (192 \<le> (of_char c :: nat) \<and> (of_char c :: nat) \<le> 222
             \<and> (of_char c :: nat) \<noteq> 215)
      then char_of ((of_char c :: nat) + 32) else c)"

definition str_lower :: "string \<Rightarrow> string" where
  "str_lower s = map lower_char s"

definition startswith :: "string \<Rightarrow> string \<Rightarrow> bool" where
  "startswith s p = (take (length p) s = p)"

fun split_sep :: "char \<Rightarrow> string \<Rightarrow> string list" where
  "split_sep sep [] = [[]]"
| "split_sep sep (c # cs) =
     (if c = sep then [] # split_sep sep cs
      else (case split_sep sep cs of
              [] \<Rightarrow> [[c]]
            | w # ws \<Rightarrow> (c # w) # ws))"

definition is_space :: "char \<Rightarrow> bool" where
  "is_space c =
     ((9 \<le> (of_char c :: nat) \<and> (of_char c :: nat) \<le> 13)
      \<or> (28 \<le> (of_char c :: nat) \<and> (of_char c :: nat) \<le> 32)
      \<or> (of_char c :: nat) = 133 \<or> (of_char c :: nat) = 160)"

definition strip :: "string \<Rightarrow> string" where
  "strip s = rev (dropWhile is_space (rev (dropWhile is_space s)))"

text \<open>Python's truth value of an optional string: \<open>None\<close> and \<open>''\<close> are false.\<close>

fun truthy :: "string option \<Rightarrow> bool" where
  "truthy None = False"
| "truthy (Some s) = (s \<noteq> [])"

section \<open>Python floats\<close>

text \<open>
  A Python float is an IEEE 754 binary64 number, and every arithmetic operation on floats
  returns the exact result rounded to the nearest float, ties to the even significand.
  Floats are modelled as the reals that \<open>fl\<close> leaves unchanged: \<open>fl x\<close> rounds \<open>x\<close> to 53
  significant bits. \<open>expo x\<close> is the exponent \<open>e\<close> with \<open>2^e \<le> x < 2^(e+1)\<close> of a positive
  \<open>x\<close>, and \<open>rne\<close> rounds to the nearest integer, ties to even. The exponent range is not
  bounded: overflow and subnormal numbers are outside the model, and the values of this
  program (64-bit profit scores, time differences in microseconds) are far from both.
\<close>

definition rne :: "real \<Rightarrow> int" where
  "rne q =
     (let n = \<lfloor>q\<rfloor>; d = q - of_int n
      in if d < 1 / 2 then n else if 1 / 2 < d then n + 1 else if even n then n else n + 1)"

definition expo :: "real \<Rightarrow> int" where
  "expo x = (if 1 \<le> x then bitlen \<lfloor>x\<rfloor> - 1 else - bitlen (\<lceil>1 / x\<rceil> - 1))"

definition fl :: "real \<Rightarrow> real" where
  "fl x =
     (if x = 0 then 0
      else (let ulp = 2 powi (expo \<bar>x\<bar> - 52) in of_int (rne (x / ulp)) * ulp))"

definition fadd :: "real \<Rightarrow> real \<Rightarrow> real" where
  "fadd a b = fl (a + b)"

definition fsub :: "real \<Rightarrow> real \<Rightarrow> real" where
  "fsub a b = fl (a - b)"

definition fmul :: "real \<Rightarrow> real \<Rightarrow> real" where
  "fmul a b = fl (a * b)"

definition fdiv :: "real \<Rightarrow> real \<Rightarrow> real" where
  "fdiv a b = fl (a / b)"

text \<open>
  The built-in \<open>sum\<close> over floats, started at the integer 0. Up to Python 3.11 it adds
  from left to right; from Python 3.12 it keeps a compensation term \<open>c\<close> beside the
  running sum \<open>f\<close> (Neumaier's algorithm) and adds it at the end. Which of the two runs
  depends on the interpreter, so it is a parameter of the model.
\<close>

datatype sum_impl = PlainSum | CompensatedSum

fun neumaier :: "real \<Rightarrow> real \<Rightarrow> real list \<Rightarrow> real" where
  "neumaier f c [] = (if c \<noteq> 0 then fadd f c else f)"
| "neumaier f c (x # xs) =
     (let t = fadd f x
      in if \<bar>f\<bar> \<ge> \<bar>x\<bar> then neumaier t (fadd c (fadd (fsub f t) x)) xs
         else neumaier t (fadd c (fadd (fsub x t) f)) xs)"

definition py_sum :: "sum_impl \<Rightarrow> real list \<Rightarrow> real" where
  "py_sum impl xs =
     (case impl of
        PlainSum \<Rightarrow> foldl fadd 0 xs
      | CompensatedSum \<Rightarrow>
          (case xs of
             [] \<Rightarrow> 0
           | x # rest \<Rightarrow> neumaier (fadd 0 x) 0 rest))"

section \<open>The decision process: tables and clock (main.py)\<close>

text \<open>
  A row of the \<open>media\<close> table. The two columns added by \<open>ALTER TABLE\<close> are nullable;
  \<open>profit_score\<close> is an SQL INTEGER.
\<close>

record media_row =
  media_id :: int
  customer_id :: string
  age_range :: string
  gender :: string
  file_path :: string
  media_type :: string
  profit_score :: int
  device_id :: string
  mood_target :: "string option"
  time_of_day_range :: "string option"

text \<open>A row of \<open>ad_displays\<close>; the time stamp is in whole seconds.\<close>

record ad_display =
  ad_media_id :: int
  ad_customer_id :: string
  ad_timestamp :: int
  ad_device_id :: string

text \<open>
  What the decision process reads: the two tables (\<open>media_seq\<close> is the last id that
  AUTOINCREMENT gave out), the host's device id, the media root \<open>media_dir\<close>, the working
  directory, the interpreter's \<open>sum\<close>, the hour that \<open>get_time_of_day_range\<close> reads, and
  the clock. The source reads \<open>datetime.now()\<close> again for every candidate it scores, so
  \<open>now_at mid\<close> is the reading, in microseconds, taken while the row with id \<open>mid\<close> is
  scored; \<open>log_now\<close> is the reading of \<open>log_ad_display\<close>, in seconds.
\<close>

record scheduler =
  media :: "media_row list"
  media_seq :: int
  ad_displays :: "ad_display list"
  host_device_id :: string
  media_dir :: string
  cwd :: string
  sum_impl :: sum_impl
  current_hour :: nat
  now_at :: "int \<Rightarrow> int"
  log_now :: int

text \<open>
  The random number generator: \<open>random_bits g n\<close> are the 53 bits that the \<open>n\<close>-th call
  of \<open>random.random()\<close> draws, \<open>calls g\<close> counts the calls made so far.
  \<open>random.random()\<close> returns these bits divided by \<open>2^53\<close>, and \<open>random.uniform(a, b)\<close>
  is \<open>a + (b - a) * random()\<close>.
\<close>

record rng =
  random_bits :: "nat \<Rightarrow> int"
  calls :: nat

definition rng_random :: "rng \<Rightarrow> real \<times> rng" where
  "rng_random g =
     (of_int (random_bits g (calls g) mod 9007199254740992) / 9007199254740992,
      g\<lparr>calls := Suc (calls g)\<rparr>)"

definition random_uniform :: "real \<Rightarrow> real \<Rightarrow> rng \<Rightarrow> real \<times> rng" where
  "random_uniform a b g =
     (case rng_random g of (u, g') \<Rightarrow> (fadd a (fmul (fsub b a) u), g'))"

definition get_time_of_day_range :: "nat \<Rightarrow> string" where
  "get_time_of_day_range hour =
     (if 5 \<le> hour \<and> hour < 11 then ''morning''
      else if 11 \<le> hour \<and> hour < 17 then ''afternoon''
      else if 17 \<le> hour \<and> hour < 21 then ''evening''
      else ''night'')"

text \<open>\<open>SELECT MAX(timestamp) FROM ad_displays WHERE media_id = ?\<close>\<close>

definition get_last_display_time :: "ad_display list \<Rightarrow> int \<Rightarrow> int option" where
  "get_last_display_time tbl mid =
     (case map ad_timestamp (filter (\<lambda>d. ad_media_id d = mid) tbl) of
        [] \<Rightarrow> None
      | t # ts \<Rightarrow> Some (fold max ts t))"

section \<open>Media selection (pick_weighted_media)\<close>

text \<open>
  \<open>timedelta.total_seconds()\<close> divides the whole number of microseconds by \<open>10^6\<close>;
  \<open>minutes_since now t\<close> is \<open>(datetime.now() - last_display).total_seconds() / 60.0\<close> for
  the clock reading \<open>now\<close> (microseconds) and the parsed time stamp \<open>t\<close> (seconds).
\<close>

definition total_seconds :: "int \<Rightarrow> real" where
  "total_seconds us = fl (of_int us / 1000000)"

definition minutes_since :: "int \<Rightarrow> int \<Rightarrow> real" where
  "minutes_since now t = fdiv (total_seconds (now - t * 1000000)) 60"

text \<open>
  The body of the scoring loop for one candidate. \<open>base_score\<close> is the score after the
  time-of-day and the mood bonus (\<open>current_tod\<close> is the time-of-day bucket, \<open>mood\<close> the
  event's mood); \<open>final_score\<close> adds the recency term for \<open>last_display\<close>, the result of
  \<open>get_last_display_time\<close>, and the floor. The literal \<open>0.1\<close> is the float nearest to
  one tenth.
\<close>

definition base_score :: "string \<Rightarrow> string \<Rightarrow> media_row \<Rightarrow> real" where
  "base_score current_tod mood row =
     (let score = fl (of_int (profit_score row));
          score = (if truthy (time_of_day_range row)
                      \<and> map_option str_lower (time_of_day_range row) = Some current_tod
                   then fadd score 10 else score);
          score = (if truthy (mood_target row)
                      \<and> Some (str_lower mood) = map_option str_lower (mood_target row)
                   then fadd score 1500 else score)
      in score)"

definition final_score :: "string \<Rightarrow> string \<Rightarrow> int option \<Rightarrow> int \<Rightarrow> media_row \<Rightarrow> real" where
  "final_score current_tod mood last_display now row =
     (let score = base_score current_tod mood row;
          score = (case last_display of
                     None \<Rightarrow> score
                   | Some t \<Rightarrow>
                       (let minutes_since_last = minutes_since now t
                        in if minutes_since_last < 5 then fsub score 5
                           else fadd score
                                  (min (fmul (fsub minutes_since_last 5) (fl (1 / 10))) 30)))
      in max score 1)"

record weighted_item =
  item_media_id :: int
  item_customer_id :: string
  item_file_path :: string
  item_media_type :: string
  score :: real

text \<open>The SQL query: rows whose three columns equal the (lowercased) parameters.\<close>

definition candidate_ads :: "scheduler \<Rightarrow> string \<Rightarrow> string \<Rightarrow> media_row list" where
  "candidate_ads w age gen =
     filter (\<lambda>row. age_range row = age \<and> gender row = gen \<and> device_id row = host_device_id w)
       (media w)"

text \<open>The final score of a row in the scheduler's state, as the loop computes it.\<close>

definition row_score :: "scheduler \<Rightarrow> string \<Rightarrow> media_row \<Rightarrow> real" where
  "row_score w mood row =
     final_score (get_time_of_day_range (current_hour w)) mood
       (get_last_display_time (ad_displays w) (media_id row))
       (now_at w (media_id row)) row"

definition weighted_list :: "scheduler \<Rightarrow> string \<Rightarrow> media_row list \<Rightarrow> weighted_item list" where
  "weighted_list w mood cands =
     map (\<lambda>row.
            \<lparr>item_media_id = media_id row,
             item_customer_id = customer_id row,
             item_file_path = file_path row,
             item_media_type = media_type row,
             score = row_score w mood row\<rparr>)
         cands"

text \<open>The draw loop: \<open>upto'\<close> is the running sum \<open>upto\<close>, \<open>None\<close> the fall-through.\<close>

fun draw_loop :: "real \<Rightarrow> real \<Rightarrow> weighted_item list \<Rightarrow> weighted_item option" where
  "draw_loop r upto' [] = None"
| "draw_loop r upto' (item # rest) =
     (if fadd upto' (score item) \<ge> r then Some item
      else draw_loop r (fadd upto' (score item)) rest)"

definition item_tuple :: "weighted_item \<Rightarrow> int \<times> string \<times> string \<times> string" where
  "item_tuple item =
     (item_media_id item, item_customer_id item, item_file_path item, item_media_type item)"

definition pick_weighted_media ::
  "scheduler \<Rightarrow> rng \<Rightarrow> string \<Rightarrow> string \<Rightarrow> string
     \<Rightarrow> (int \<times> string \<times> string \<times> string) option \<times> rng" where
  "pick_weighted_media w g age_range0 gender0 mood =
     (let cands = candidate_ads w (str_lower age_range0) (str_lower gender0)
      in if cands = [] then (None, g)
         else
           (let wl = weighted_list w mood cands;
                total = py_sum (sum_impl w) (map score wl);
                (r, g') = random_uniform 0 total g
            in (map_option item_tuple (draw_loop r 0 wl), g')))"

section \<open>Paths (posixpath)\<close>

text \<open>
  \<open>os.path.join\<close>, \<open>normpath\<close>, \<open>abspath\<close> and \<open>relpath\<close> of the POSIX flavour, on
  strings, with the working directory as a parameter. \<open>norm_comps\<close> is the loop of
  \<open>normpath\<close> over the components; \<open>common_prefix_len\<close> is the length of
  \<open>commonprefix\<close> of two component lists.
\<close>

fun join_sep :: "string \<Rightarrow> string list \<Rightarrow> string" where
  "join_sep sep [] = []"
| "join_sep sep [x] = x"
| "join_sep sep (x # y # ys) = x @ sep @ join_sep sep (y # ys)"

definition endswith :: "string \<Rightarrow> string \<Rightarrow> bool" where
  "endswith s p = startswith (rev s) (rev p)"

definition path_join :: "string \<Rightarrow> string \<Rightarrow> string" where
  "path_join a b =
     (if startswith b ''/'' then b
      else if a = [] \<or> endswith a ''/'' then a @ b
      else a @ ''/'' @ b)"

fun norm_comps :: "bool \<Rightarrow> string list \<Rightarrow> string list \<Rightarrow> string list" where
  "norm_comps initial_slashes new_comps [] = new_comps"
| "norm_comps initial_slashes new_comps (comp' # comps) =
     (if comp' = [] \<or> comp' = ''.'' then norm_comps initial_slashes new_comps comps
      else if comp' \<noteq> ''..'' \<or> (\<not> initial_slashes \<and> new_comps = [])
                \<or> (new_comps \<noteq> [] \<and> last new_comps = ''..'')
           then norm_comps initial_slashes (new_comps @ [comp']) comps
      else if new_comps \<noteq> [] then norm_comps initial_slashes (butlast new_comps) comps
      else norm_comps initial_slashes new_comps comps)"

definition normpath :: "string \<Rightarrow> string" where
  "normpath path =
     (if path = [] then ''.''
      else
        (let initial_slashes =
               (if startswith path ''/''
                then (if startswith path ''//'' \<and> \<not> startswith path ''///'' then 2 else 1)
                else (0::nat));
             comps = norm_comps (initial_slashes \<noteq> 0) [] (split_sep CHR ''/'' path);
             path' = replicate initial_slashes CHR ''/'' @ join_sep ''/'' comps
         in if path' = [] then ''.'' else path'))"

definition abspath :: "string \<Rightarrow> string \<Rightarrow> string" where
  "abspath wd path = normpath (if startswith path ''/'' then path else path_join wd path)"

fun common_prefix_len :: "string list \<Rightarrow> string list \<Rightarrow> nat" where
  "common_prefix_len (x # xs) (y # ys) = (if x = y then Suc (common_prefix_len xs ys) else 0)"
| "common_prefix_len xs ys = 0"

definition relpath :: "string \<Rightarrow> string \<Rightarrow> string \<Rightarrow> string" where
  "relpath wd path start =
     (let start_list = filter (\<lambda>x. x \<noteq> []) (split_sep CHR ''/'' (abspath wd start));
          path_list = filter (\<lambda>x. x \<noteq> []) (split_sep CHR ''/'' (abspath wd path));
          i = common_prefix_len start_list path_list;
          rel_list = replicate (length start_list - i) ''..'' @ drop i path_list
      in case rel_list of
           [] \<Rightarrow> ''.''
         | c # cs \<Rightarrow> foldl path_join c cs)"

section \<open>Storing and dispatching media (store_media, play_media)\<close>

definition store_media ::
  "scheduler \<Rightarrow> string \<Rightarrow> string \<Rightarrow> string \<Rightarrow> string \<Rightarrow> string \<Rightarrow> int \<Rightarrow> scheduler" where
  "store_media w cust age gen path mtype profit =
     (let abs_media_dir = media_dir w;
          abs_file_path = abspath (cwd w) path
      in if \<not> startswith abs_file_path abs_media_dir then w
         else
           (let rel_file_path = relpath (cwd w) abs_file_path abs_media_dir
            in w\<lparr>media := media w @
                   [\<lparr>media_id = media_seq w + 1, customer_id = cust,
                     age_range = str_lower age, gender = str_lower gen,
                     file_path = rel_file_path, media_type = mtype, profit_score = profit,
                     device_id = host_device_id w, mood_target = None,
                     time_of_day_range = None\<rparr>],
                 media_seq := media_seq w + 1\<rparr>))"

definition log_ad_display :: "int \<Rightarrow> string \<Rightarrow> scheduler \<Rightarrow> scheduler" where
  "log_ad_display mid cust w =
     w\<lparr>ad_displays := ad_displays w @
          [\<lparr>ad_media_id = mid, ad_customer_id = cust, ad_timestamp = log_now w,
            ad_device_id = host_device_id w\<rparr>]\<rparr>"

text \<open>
  \<open>play_media\<close> returns the command it hands to \<open>send_ad_command\<close> (\<open>None\<close> when it
  returns without sending); \<open>exists\<close> is \<open>os.path.exists\<close>.
\<close>

definition play_media ::
  "(string \<Rightarrow> bool) \<Rightarrow> scheduler \<Rightarrow> rng \<Rightarrow> string \<Rightarrow> string \<Rightarrow> string
     \<Rightarrow> string option \<times> scheduler \<times> rng" where
  "play_media exists w g age gen mood =
     (case pick_weighted_media w g age gen mood of
        (None, g') \<Rightarrow> (None, w, g')
      | (Some (mid, cust, rel_file_path, mtype), g') \<Rightarrow>
          (let abs_file_path = abspath (cwd w) (path_join (media_dir w) rel_file_path)
           in if \<not> exists abs_file_path then (None, w, g')
              else if str_lower mtype \<in> set [''image/jpg'', ''image/jpeg'', ''image/png'']
                then (Some (''SHOW_IMAGE:'' @ abs_file_path), log_ad_display mid cust w, g')
              else if str_lower mtype \<in> set [''video/mp4'', ''video/avi'', ''video/mov'']
                then (Some (''SHOW_VIDEO:'' @ abs_file_path), log_ad_display mid cust w, g')
              else (None, w, g')))"

section \<open>The playback controller (ad_display.py)\<close>

definition FADE_IN_DURATION :: real where "FADE_IN_DURATION = 1"
definition HOLD_DURATION :: real where "HOLD_DURATION = 2"
definition FADE_OUT_DURATION :: real where "FADE_OUT_DURATION = 1"
definition MAX_QUEUE_SIZE :: nat where "MAX_QUEUE_SIZE = 5"

datatype AdState = IDLE | FADING_IN | HOLDING | FADING_OUT

datatype py_error = AttributeError

text \<open>
  A \<open>VideoPlayer\<close> object; \<open>cap_opened\<close> is false once \<open>release\<close> has been called.
  The objects live in a store (\<open>players\<close>, addressed by position), because
  \<open>current_media\<close> and \<open>video_player\<close> refer to the same object.
\<close>

record VideoPlayer =
  video_path :: string
  width :: nat
  height :: nat
  last_frame_time :: real
  cap_opened :: bool

datatype media_handle = Surface string nat nat | Player nat

record playback =
  ad_queue :: "(string \<times> string) list"
  current_media :: "media_handle option"
  current_image_path :: "string option"
  current_stage :: AdState
  stage_start_time :: real
  alpha :: int
  is_video :: bool
  video_player :: "nat option"
  players :: "VideoPlayer list"
  window_width :: nat
  window_height :: nat
  pygame_initialized :: bool

text \<open>
  What one call of \<open>update_fade\<close> reads from outside: the first and the second
  reading of \<open>time.time()\<close> during the call, whether loading the image or opening the
  video succeeds, and the two properties of the capture that the holding stage compares.
  When a video is started, the constructor of \<open>VideoPlayer\<close> takes the first reading and
  the start of the fade the second.
\<close>

record tick_env =
  time1 :: real
  time2 :: real
  load_ok :: bool
  pos_frames :: real
  frame_count :: real

definition release :: "nat \<Rightarrow> VideoPlayer list \<Rightarrow> VideoPlayer list" where
  "release p ps = (if p < length ps then ps[p := (ps ! p)\<lparr>cap_opened := False\<rparr>] else ps)"

text \<open>Python's \<open>int\<close> of a float truncates towards zero.\<close>

definition py_int :: "real \<Rightarrow> int" where
  "py_int x = (if 0 \<le> x then \<lfloor>x\<rfloor> else \<lceil>x\<rceil>)"

definition begin_fade_in :: "real \<Rightarrow> playback \<Rightarrow> playback" where
  "begin_fade_in t s = s\<lparr>current_stage := FADING_IN, stage_start_time := t, alpha := 0\<rparr>"

definition start_new_ad :: "tick_env \<Rightarrow> string \<Rightarrow> string \<Rightarrow> playback \<Rightarrow> playback" where
  "start_new_ad env media_path mtype s =
     (let s1 = (case video_player s of
                  None \<Rightarrow> s
                | Some p \<Rightarrow>
                    if is_video s
                    then s\<lparr>players := release p (players s), video_player := None\<rparr>
                    else s)
      in if mtype = ''image'' then
           (let s2 = s1\<lparr>current_image_path := Some media_path\<rparr>
            in if load_ok env
               then begin_fade_in (time1 env)
                      (s2\<lparr>current_media :=
                             Some (Surface media_path (window_width s2) (window_height s2)),
                          is_video := False\<rparr>)
               else s2\<lparr>current_media := None, is_video := False\<rparr>)
         else if mtype = ''video'' then
           (let s2 = s1\<lparr>current_image_path := None\<rparr>
            in if load_ok env
               then begin_fade_in (time2 env)
                      (s2\<lparr>players := players s2 @
                             [\<lparr>video_path = media_path, width = window_width s2,
                               height = window_height s2, last_frame_time = time1 env,
                               cap_opened = True\<rparr>],
                          video_player := Some (length (players s2)),
                          current_media := Some (Player (length (players s2))),
                          is_video := True\<rparr>)
               else s2\<lparr>current_media := None, is_video := False\<rparr>)
         else begin_fade_in (time1 env) s1)"

definition update_fade :: "tick_env \<Rightarrow> playback \<Rightarrow> py_error + playback" where
  "update_fade env s =
     (case current_stage s of
        IDLE \<Rightarrow>
          (case ad_queue s of
             [] \<Rightarrow> Inr s
           | (path, mtype) # rest \<Rightarrow> Inr (start_new_ad env path mtype (s\<lparr>ad_queue := rest\<rparr>)))
      | FADING_IN \<Rightarrow>
          (let elapsed = time1 env - stage_start_time s;
               s1 = s\<lparr>alpha := min 255 (py_int (255 * elapsed / FADE_IN_DURATION))\<rparr>
           in if elapsed \<ge> FADE_IN_DURATION
              then Inr (s1\<lparr>current_stage := HOLDING, stage_start_time := time1 env\<rparr>)
              else Inr s1)
      | HOLDING \<Rightarrow>
          (let elapsed = time1 env - stage_start_time s
           in if is_video s then
                (case video_player s of
                   None \<Rightarrow> Inl AttributeError
                 | Some p \<Rightarrow>
                     if pos_frames env \<ge> frame_count env - 1
                     then Inr (s\<lparr>current_stage := FADING_OUT, stage_start_time := time1 env\<rparr>)
                     else Inr s)
              else if elapsed \<ge> HOLD_DURATION
                then Inr (s\<lparr>current_stage := FADING_OUT, stage_start_time := time1 env\<rparr>)
                else Inr s)
      | FADING_OUT \<Rightarrow>
          (let elapsed = time1 env - stage_start_time s;
               s1 = s\<lparr>alpha := max 0 (255 - py_int (255 * elapsed / FADE_OUT_DURATION))\<rparr>
           in if elapsed \<ge> FADE_OUT_DURATION then
                (let s2 = s1\<lparr>current_stage := IDLE, stage_start_time := time2 env\<rparr>
                 in if is_video s2 then
                      (case current_media s2 of
                         None \<Rightarrow> Inr s2
                       | Some (Surface f w h) \<Rightarrow> Inl AttributeError
                       | Some (Player p) \<Rightarrow>
                           Inr (s2\<lparr>players := release p (players s2), current_media := None\<rparr>))
                    else Inr (s2\<lparr>current_media := None\<rparr>))
              else Inr s1))"

text \<open>
  The handler of one connection: \<open>received\<close> is the decoded text, \<open>isfile\<close> is
  \<open>os.path.isfile\<close>. The handler either returns or raises \<open>SystemExit\<close>.
\<close>

datatype outcome = Returned | SystemExit int

definition handle_client_connection ::
  "(string \<Rightarrow> bool) \<Rightarrow> string \<Rightarrow> playback \<Rightarrow> outcome \<times> playback" where
  "handle_client_connection isfile received s =
     (let data = strip received
      in if data = [] then (Returned, s)
         else if startswith data ''SHOW_IMAGE:'' \<or> startswith data ''SHOW_VIDEO:'' then
           (let path = strip (last (split_sep CHR '':'' data));
                mtype = (if startswith data ''SHOW_IMAGE:'' then ''image'' else ''video'')
            in if isfile path then
                 (if length (ad_queue s) < MAX_QUEUE_SIZE
                  then (Returned, s\<lparr>ad_queue := ad_queue s @ [(path, mtype)]\<rparr>)
                  else (Returned, s))
               else (Returned, s))
         else if data = ''QUIT'' then (SystemExit 0, s\<lparr>pygame_initialized := False\<rparr>)
         else (Returned, s))"

text \<open>The end of \<open>main_loop\<close>, after the \<open>while\<close>: release the video, quit pygame, exit.\<close>

definition main_loop_exit :: "playback \<Rightarrow> outcome \<times> playback" where
  "main_loop_exit s =
     (let s1 = (case video_player s of
                  None \<Rightarrow> s
                | Some p \<Rightarrow> if is_video s then s\<lparr>players := release p (players s)\<rparr> else s)
      in (SystemExit 0, s1\<lparr>pygame_initialized := False\<rparr>))"

text \<open>
  The server starts one thread per connection, and the threads share \<open>ad_queue\<close> with
  the tick loop without a lock. A handler therefore runs in two steps that other threads
  can come between: \<open>handler_begin\<close> goes from the received text to the test of the
  queue's length, and \<open>handler_append\<close> is the append that follows a passed test. A
  handler that runs without interruption is \<open>handle_client_connection\<close>.
\<close>

datatype handler_pc = Received string | Appending string string | Finished

definition handler_begin ::
  "(string \<Rightarrow> bool) \<Rightarrow> string \<Rightarrow> playback \<Rightarrow> handler_pc \<times> outcome \<times> playback" where
  "handler_begin isfile received s =
     (let data = strip received
      in if data = [] then (Finished, Returned, s)
         else if startswith data ''SHOW_IMAGE:'' \<or> startswith data ''SHOW_VIDEO:'' then
           (let path = strip (last (split_sep CHR '':'' data));
                mtype = (if startswith data ''SHOW_IMAGE:'' then ''image'' else ''video'')
            in if isfile path then
                 (if length (ad_queue s) < MAX_QUEUE_SIZE
                  then (Appending path mtype, Returned, s)
                  else (Finished, Returned, s))
               else (Finished, Returned, s))
         else if data = ''QUIT'' then (Finished, SystemExit 0, s\<lparr>pygame_initialized := False\<rparr>)
         else (Finished, Returned, s))"

definition handler_append :: "string \<Rightarrow> string \<Rightarrow> playback \<Rightarrow> playback" where
  "handler_append path mtype s = s\<lparr>ad_queue := ad_queue s @ [(path, mtype)]\<rparr>"

text \<open>
  The controller: the state shared by all threads and the handler threads started so
  far, each with the step it will take next. An event accepts a connection (a new
  thread), lets the thread at a position take its next step, or is one tick of
  \<open>update_fade\<close> on the main thread. The run stops at an exit or at an uncaught error.
\<close>

record controller =
  shared :: playback
  handlers :: "handler_pc list"

datatype controller_event = Accept string | Run nat | Tick tick_env

fun controller_exec ::
  "(string \<Rightarrow> bool) \<Rightarrow> controller_event list \<Rightarrow> controller \<Rightarrow> controller" where
  "controller_exec isfile [] c = c"
| "controller_exec isfile (Accept d # evs) c =
     controller_exec isfile evs (c\<lparr>handlers := handlers c @ [Received d]\<rparr>)"
| "controller_exec isfile (Run i # evs) c =
     (if i < length (handlers c) then
        (case handlers c ! i of
           Received d \<Rightarrow>
             (case handler_begin isfile d (shared c) of
                (pc, Returned, s') \<Rightarrow>
                  controller_exec isfile evs (c\<lparr>shared := s', handlers := (handlers c)[i := pc]\<rparr>)
              | (pc, SystemExit n, s') \<Rightarrow>
                  c\<lparr>shared := s', handlers := (handlers c)[i := pc]\<rparr>)
         | Appending path mtype \<Rightarrow>
             controller_exec isfile evs
               (c\<lparr>shared := handler_append path mtype (shared c),
                  handlers := (handlers c)[i := Finished]\<rparr>)
         | Finished \<Rightarrow> controller_exec isfile evs c)
      else controller_exec isfile evs c)"
| "controller_exec isfile (Tick env # evs) c =
     (case update_fade env (shared c) of
        Inl e \<Rightarrow> c
      | Inr s' \<Rightarrow> controller_exec isfile evs (c\<lparr>shared := s'\<rparr>))"

definition initial_playback :: playback where
  "initial_playback =
     \<lparr>ad_queue = [], current_media = None, current_image_path = None, current_stage = IDLE,
      stage_start_time = 0, alpha = 0, is_video = False, video_player = None, players = [],
      window_width = 1280, window_height = 720, pygame_initialized = True\<rparr>"

definition initial_controller :: controller where
  "initial_controller = \<lparr>shared = initial_playback, handlers = []\<rparr>"

section \<open>The specification's wording, and concrete inputs\<close>

text \<open>
  The draw as the specification words it, on the list of the candidates' scores: the
  cumulative sum at position \<open>i\<close> is what accumulating the scores up to and including
  \<open>i\<close> gives (a float sum, like every sum of the program); the selected position is the
  first, in list order, whose cumulative sum is at least \<open>r\<close>.
\<close>

definition running_sum :: "real list \<Rightarrow> nat \<Rightarrow> real" where
  "running_sum xs i = foldl fadd 0 (take (Suc i) xs)"

definition first_reaching :: "real \<Rightarrow> real list \<Rightarrow> nat option" where
  "first_reaching r xs = find (\<lambda>i. running_sum xs i \<ge> r) [0..<length xs]"

text \<open>The total and the value drawn, as \<open>pick_weighted_media\<close> computes them.\<close>

definition draw_total :: "scheduler \<Rightarrow> string \<Rightarrow> media_row list \<Rightarrow> real" where
  "draw_total w mood cands = py_sum (sum_impl w) (map (row_score w mood) cands)"

definition draw_value :: "scheduler \<Rightarrow> rng \<Rightarrow> string \<Rightarrow> media_row list \<Rightarrow> real" where
  "draw_value w g mood cands = fst (random_uniform 0 (draw_total w mood cands) g)"

text \<open>A kiosk with one creative for women of 18 to 29 and one for men of 30 to 39.\<close>

definition row_a :: media_row where
  "row_a = \<lparr>media_id = 1, customer_id = ''c1'', age_range = ''18-29'', gender = ''female'',
     file_path = ''a.jpg'', media_type = ''image/jpg'', profit_score = 5,
     device_id = ''kiosk'', mood_target = None, time_of_day_range = None\<rparr>"

definition row_b :: media_row where
  "row_b = \<lparr>media_id = 2, customer_id = ''c2'', age_range = ''30-39'', gender = ''male'',
     file_path = ''b.mp4'', media_type = ''video/mp4'', profit_score = 9,
     device_id = ''kiosk'', mood_target = None, time_of_day_range = None\<rparr>"

text \<open>A row as sync_media.py inserts it when the S3 key carries no profit score.\<close>

definition row_zero :: media_row where
  "row_zero = \<lparr>media_id = 3, customer_id = ''c3'', age_range = ''18-29'', gender = ''female'',
     file_path = ''/app/media/z.jpg'', media_type = ''image/jpg'', profit_score = 0,
     device_id = ''kiosk'', mood_target = Some ''neutral'',
     time_of_day_range = Some ''none''\<rparr>"

definition kiosk :: scheduler where
  "kiosk = \<lparr>media = [row_a, row_b], media_seq = 2, ad_displays = [],
     host_device_id = ''kiosk'', media_dir = ''/app/media'', cwd = ''/app'',
     sum_impl = PlainSum, current_hour = 9, now_at = (\<lambda>mid. 1000000000),
     log_now = 1000\<rparr>"

text \<open>A generator whose every call returns one half, and one that returns \<open>1 - 2^-53\<close>.\<close>

definition half_rng :: rng where
  "half_rng = \<lparr>random_bits = (\<lambda>n. 4503599627370496), calls = 0\<rparr>"

definition max_rng :: rng where
  "max_rng = \<lparr>random_bits = (\<lambda>n. 9007199254740991), calls = 0\<rparr>"

text \<open>
  A kiosk with four creatives for women of 18 to 29 and one for men; at the time of
  the selection (1000 seconds) three of the four were last shown 427, 645 and 378 seconds
  ago.
\<close>

definition row_1 :: media_row where
  "row_1 = \<lparr>media_id = 11, customer_id = ''c1'', age_range = ''18-29'', gender = ''female'',
     file_path = ''one.jpg'', media_type = ''image/jpg'', profit_score = 4,
     device_id = ''kiosk'', mood_target = None, time_of_day_range = None\<rparr>"

definition row_2 :: media_row where
  "row_2 = \<lparr>media_id = 12, customer_id = ''c2'', age_range = ''18-29'', gender = ''female'',
     file_path = ''two.jpg'', media_type = ''image/png'', profit_score = 4,
     device_id = ''kiosk'', mood_target = None, time_of_day_range = None\<rparr>"

definition row_3 :: media_row where
  "row_3 = \<lparr>media_id = 13, customer_id = ''c3'', age_range = ''18-29'', gender = ''female'',
     file_path = ''three.mp4'', media_type = ''video/mp4'', profit_score = 3,
     device_id = ''kiosk'', mood_target = None, time_of_day_range = None\<rparr>"

definition row_4 :: media_row where
  "row_4 = \<lparr>media_id = 14, customer_id = ''c4'', age_range = ''18-29'', gender = ''female'',
     file_path = ''four.jpg'', media_type = ''image/jpeg'', profit_score = 2,
     device_id = ''kiosk'', mood_target = None, time_of_day_range = None\<rparr>"

definition busy_kiosk :: scheduler where
  "busy_kiosk = \<lparr>media = [row_1, row_b, row_2, row_3, row_4], media_seq = 14,
     ad_displays =
       [\<lparr>ad_media_id = 13, ad_customer_id = ''c3'', ad_timestamp = 355, ad_device_id = ''kiosk''\<rparr>,
        \<lparr>ad_media_id = 11, ad_customer_id = ''c1'', ad_timestamp = 573, ad_device_id = ''kiosk''\<rparr>,
        \<lparr>ad_media_id = 14, ad_customer_id = ''c4'', ad_timestamp = 622, ad_device_id = ''kiosk''\<rparr>],
     host_device_id = ''kiosk'', media_dir = ''/app/media'', cwd = ''/app'',
     sum_impl = PlainSum, current_hour = 9, now_at = (\<lambda>mid. 1000000000),
     log_now = 1000\<rparr>"

text \<open>The same kiosk on an interpreter whose \<open>sum\<close> is compensated.\<close>

definition busy_kiosk_312 :: scheduler where
  "busy_kiosk_312 = busy_kiosk\<lparr>sum_impl := CompensatedSum\<rparr>"

text \<open>A creative whose profit score is \<open>2^57\<close>.\<close>

definition row_huge :: media_row where
  "row_huge = \<lparr>media_id = 4, customer_id = ''c4'', age_range = ''18-29'', gender = ''female'',
     file_path = ''h.jpg'', media_type = ''image/jpg'',
     profit_score = 144115188075855872, device_id = ''kiosk'', mood_target = None,
     time_of_day_range = None\<rparr>"



text \<open>The cycle of the specification: each stage has one successor.\<close>

fun next_stage :: "AdState \<Rightarrow> AdState" where
  "next_stage IDLE = FADING_IN"
| "next_stage FADING_IN = HOLDING"
| "next_stage HOLDING = FADING_OUT"
| "next_stage FADING_OUT = IDLE"

text \<open>The payload as the specification words it: everything after the first colon.\<close>

definition payload_spec :: "string \<Rightarrow> string" where
  "payload_spec data = drop 1 (dropWhile (\<lambda>c. c \<noteq> CHR '':'') data)"

text \<open>A path lies under a root when it is the root or continues it after a slash.\<close>

definition inside_root :: "string \<Rightarrow> string \<Rightarrow> bool" where
  "inside_root base p = (p = base \<or> startswith p (base @ ''/''))"

text \<open>Ticks: one that loads at time 10 and one a second later.\<close>

definition tick_load :: tick_env where
  "tick_load = \<lparr>time1 = 10, time2 = 10, load_ok = True, pos_frames = 0, frame_count = 100\<rparr>"

definition tick_later :: tick_env where
  "tick_later = \<lparr>time1 = 11, time2 = 11, load_ok = True, pos_frames = 30, frame_count = 100\<rparr>"

definition one_queued :: playback where
  "one_queued = initial_playback\<lparr>ad_queue := [(''/media/a.jpg'', ''image'')]\<rparr>"

text \<open>The controller while it holds a video that it opened from the queue.\<close>

definition video_session :: playback where
  "video_session =
     shared (controller_exec (\<lambda>p. True)
       [Accept ''SHOW_VIDEO:/media/v.mp4'', Run 0, Run 0, Tick tick_load, Tick tick_later]
       initial_controller)"

text \<open>
  Four commands handled one after the other, then two connections whose handlers both
  test the queue's length before either appends.
\<close>

definition racing_events :: "controller_event list" where
  "racing_events =
     [Accept ''SHOW_IMAGE:/media/1.jpg'', Run 0, Run 0,
      Accept ''SHOW_IMAGE:/media/2.jpg'', Run 1, Run 1,
      Accept ''SHOW_VIDEO:/media/3.mp4'', Run 2, Run 2,
      Accept ''SHOW_IMAGE:/media/4.jpg'', Run 3, Run 3,
      Accept ''SHOW_IMAGE:/media/5.jpg'', Accept ''SHOW_IMAGE:/media/6.jpg'',
      Run 4, Run 5, Run 4, Run 5]"

text \<open>The kiosk before any media is stored.\<close>

definition empty_kiosk :: scheduler where
  "empty_kiosk = kiosk\<lparr>media := [], media_seq := 0\<rparr>"

section \<open>Lemmas about float rounding\<close>

lemma rne_cases:
  "rne q = \<lfloor>q\<rfloor> \<or> rne q = \<lfloor>q\<rfloor> + 1"
  by (simp add: rne_def Let_def)

lemma rne_close: "\<bar>of_int (rne q) - q\<bar> \<le> 1 / 2"
  unfolding rne_def Let_def by (auto simp: abs_if) (linarith+)?

lemma rne_nearest: "\<bar>of_int (rne q) - q\<bar> \<le> \<bar>of_int j - q\<bar>"
proof (cases "j \<le> \<lfloor>q\<rfloor>")
  case True
  then have a: "of_int j \<le> (of_int \<lfloor>q\<rfloor> :: real)" by simp
  have b: "of_int \<lfloor>q\<rfloor> \<le> q" by simp
  show ?thesis
  proof (cases "j = \<lfloor>q\<rfloor>")
    case True
    then show ?thesis unfolding rne_def Let_def by (auto simp: abs_if) (linarith+)?
  next
    case False
    with True have "j \<le> \<lfloor>q\<rfloor> - 1" by simp
    then have "of_int j \<le> (of_int \<lfloor>q\<rfloor> :: real) - 1" by (metis of_int_1 of_int_diff of_int_le_iff)
    then have "1 \<le> \<bar>of_int j - q\<bar>" using b by linarith
    with rne_close[of q] show ?thesis by linarith
  qed
next
  case False
  then have "\<lfloor>q\<rfloor> + 1 \<le> j" by simp
  then have a: "(of_int \<lfloor>q\<rfloor> :: real) + 1 \<le> of_int j"
    by (metis of_int_1 of_int_add of_int_le_iff)
  have b: "q < of_int \<lfloor>q\<rfloor> + 1" by linarith
  show ?thesis
  proof (cases "j = \<lfloor>q\<rfloor> + 1")
    case True
    then show ?thesis unfolding rne_def Let_def by (auto simp: abs_if) (linarith+)?
  next
    case False
    with \<open>\<lfloor>q\<rfloor> + 1 \<le> j\<close> have "\<lfloor>q\<rfloor> + 2 \<le> j" by simp
    then have "(of_int \<lfloor>q\<rfloor> :: real) + 2 \<le> of_int j"
      by (metis of_int_numeral of_int_add of_int_le_iff)
    then have "1 \<le> \<bar>of_int j - q\<bar>" using b by linarith
    with rne_close[of q] show ?thesis by linarith
  qed
qed

lemma rne_of_int: "rne (of_int n) = n"
  by (simp add: rne_def)

lemma rne_minus: "rne (- q) = - rne q"
proof (cases "q = of_int \<lfloor>q\<rfloor>")
  case True
  then obtain n where "q = of_int n" ..
  then show ?thesis using rne_of_int[of n] rne_of_int[of "- n"] by simp
next
  case False
  then have lt: "of_int \<lfloor>q\<rfloor> < q" by linarith
  have fm: "\<lfloor>- q\<rfloor> = - \<lfloor>q\<rfloor> - 1"
    using False by (simp add: floor_minus ceiling_altdef)
  show ?thesis unfolding rne_def Let_def fm using lt
    by (auto simp: abs_if) 
qed

lemma expo_bounds:
  assumes "0 < x"
  shows "2 powi expo x \<le> x" and "x < 2 powi (expo x + 1)"
proof -
  have "2 powi expo x \<le> x \<and> x < 2 powi (expo x + 1)"
  proof (cases "1 \<le> x")
    case True
    then have pos: "0 < \<lfloor>x\<rfloor>" by simp
    let ?b = "bitlen \<lfloor>x\<rfloor>"
    from bitlen_bounds[OF pos] have lo: "2 ^ nat (?b - 1) \<le> \<lfloor>x\<rfloor>" and hi: "\<lfloor>x\<rfloor> < 2 ^ nat ?b"
      by auto
    have b1: "1 \<le> ?b" using pos by (simp add: bitlen_alt_def)
    have e: "expo x = ?b - 1" using True by (simp add: expo_def)
    have "(2::real) powi (?b - 1) = 2 ^ nat (?b - 1)" using b1 by (simp add: power_int_def)
    also have "\<dots> = of_int (2 ^ nat (?b - 1))" by simp
    also have "\<dots> \<le> of_int \<lfloor>x\<rfloor>" using lo by (simp only: of_int_le_iff)
    also have "\<dots> \<le> x" by simp
    finally have A: "2 powi expo x \<le> x" using e by simp
    have "\<lfloor>x\<rfloor> + 1 \<le> 2 ^ nat ?b" using hi by simp
    then have "of_int (\<lfloor>x\<rfloor> + 1) \<le> (of_int (2 ^ nat ?b) :: real)" by (simp only: of_int_le_iff)
    moreover have "x < of_int (\<lfloor>x\<rfloor> + 1)" by linarith
    moreover have "(of_int (2 ^ nat ?b) :: real) = 2 ^ nat ?b" by simp
    ultimately have "x < 2 ^ nat ?b" by linarith
    also have "\<dots> = 2 powi ?b" using b1 by (simp add: power_int_def)
    finally have "x < 2 powi (expo x + 1)" using e by simp
    with A show ?thesis by simp
  next
    case False
    then have x1: "x < 1" by simp
    let ?y = "1 / x"
    have y1: "1 < ?y" using assms x1 by simp
    let ?c = "\<lceil>?y\<rceil>"
    have c2: "2 \<le> ?c" using y1 by linarith
    then have pos: "0 < ?c - 1" by simp
    let ?b = "bitlen (?c - 1)"
    from bitlen_bounds[OF pos] have lo: "2 ^ nat (?b - 1) \<le> ?c - 1" and hi: "?c - 1 < 2 ^ nat ?b"
      by auto
    have b1: "1 \<le> ?b" using pos by (simp add: bitlen_alt_def)
    have e: "expo x = - ?b" using False by (simp add: expo_def)
    have "?c \<le> 2 ^ nat ?b" using hi by simp
    then have "of_int ?c \<le> (of_int (2 ^ nat ?b) :: real)" by (simp only: of_int_le_iff)
    moreover have "?y \<le> of_int ?c" by linarith
    moreover have "(of_int (2 ^ nat ?b) :: real) = 2 ^ nat ?b" by simp
    ultimately have "?y \<le> 2 ^ nat ?b" by linarith
    then have "1 / 2 ^ nat ?b \<le> x" using assms
      by (simp add: field_simps)
    moreover have "(2::real) powi (- ?b) = 1 / 2 ^ nat ?b"
      using b1 by (simp add: power_int_def field_simps)
    ultimately have A: "2 powi expo x \<le> x" using e by simp
    have "of_int (2 ^ nat (?b - 1)) \<le> (of_int (?c - 1) :: real)" using lo by (simp only: of_int_le_iff)
    moreover have "of_int (?c - 1) < ?y" by linarith
    moreover have "(of_int (2 ^ nat (?b - 1)) :: real) = 2 ^ nat (?b - 1)" by simp
    ultimately have "2 ^ nat (?b - 1) < ?y" by linarith
    then have "x < 1 / 2 ^ nat (?b - 1)" using assms by (simp add: field_simps)
    moreover have "(2::real) powi (- ?b + 1) = 1 / 2 ^ nat (?b - 1)"
    proof (cases "?b = 1")
      case True
      then show ?thesis by simp
    next
      case False
      with b1 have "- ?b + 1 < 0" by simp
      then show ?thesis using b1 by (simp add: power_int_def field_simps nat_diff_distrib)
    qed
    ultimately have "x < 2 powi (expo x + 1)" using e by simp
    with A show ?thesis by simp
  qed
  then show "2 powi expo x \<le> x" and "x < 2 powi (expo x + 1)" by simp_all
qed

lemma expo_unique:
  assumes "2 powi a \<le> x" and "x < 2 powi (a + 1)"
  shows "expo x = a"
proof -
  have pos: "0 < x" using assms(1) zero_less_power_int[of "2::real" a] by linarith
  from expo_bounds[OF pos] have lo: "2 powi expo x \<le> x" and hi: "x < 2 powi (expo x + 1)" .
  have "\<not> expo x < a"
  proof
    assume "expo x < a"
    then have "expo x + 1 \<le> a" by simp
    then have "(2::real) powi (expo x + 1) \<le> 2 powi a" by (rule power_int_increasing) simp
    with hi assms(1) show False by linarith
  qed
  moreover have "\<not> a < expo x"
  proof
    assume "a < expo x"
    then have "a + 1 \<le> expo x" by simp
    then have "(2::real) powi (a + 1) \<le> 2 powi expo x" by (rule power_int_increasing) simp
    with lo assms(2) show False by linarith
  qed
  ultimately show ?thesis by simp
qed

lemma pow52: "(2::real) powi e = 2 powi (e - 52) * 4503599627370496"
proof -
  have "(2::real) powi ((e - 52) + 52) = 2 powi (e - 52) * 2 powi 52"
    by (rule power_int_add) simp
  then show ?thesis by simp
qed

lemma pow53: "(2::real) powi (e + 1) = 2 powi (e - 52) * 9007199254740992"
proof -
  have "(2::real) powi ((e - 52) + 53) = 2 powi (e - 52) * 2 powi 53"
    by (rule power_int_add) simp
  then show ?thesis by (simp add: add.commute)
qed

lemma fl_zero: "fl 0 = 0"
  by (simp add: fl_def)

lemma fl_minus: "fl (- x) = - fl x"
  by (simp add: fl_def Let_def rne_minus)

lemma fl_pos_repr:
  assumes "0 < x"
  shows "fl x = of_int (rne (x / 2 powi (expo x - 52))) * 2 powi (expo x - 52)"
    and "4503599627370496 \<le> x / 2 powi (expo x - 52)"
    and "x / 2 powi (expo x - 52) < 9007199254740992"
    and "4503599627370496 \<le> rne (x / 2 powi (expo x - 52))"
    and "rne (x / 2 powi (expo x - 52)) \<le> 9007199254740992"
proof -
  let ?u = "(2::real) powi (expo x - 52)"
  let ?q = "x / ?u"
  have u: "0 < ?u" by (simp add: zero_less_power_int)
  show "fl x = of_int (rne ?q) * ?u" using assms by (simp add: fl_def Let_def)
  from expo_bounds[OF assms] pow52[of "expo x"] pow53[of "expo x"]
  have "?u * 4503599627370496 \<le> x" and "x < ?u * 9007199254740992" by simp_all
  then show lo: "4503599627370496 \<le> ?q" and hi: "?q < 9007199254740992"
    using u by (simp_all add: field_simps)
  have fl_lo: "4503599627370496 \<le> \<lfloor>?q\<rfloor>" using lo by (simp add: le_floor_iff)
  have fl_hi: "\<lfloor>?q\<rfloor> < 9007199254740992" using hi by (simp add: floor_less_iff)
  from rne_cases[of ?q] fl_lo show "4503599627370496 \<le> rne ?q" by auto
  from rne_cases[of ?q] fl_hi show "rne ?q \<le> 9007199254740992" by auto
qed

lemma fl_fix_norm:
  assumes "4503599627370496 \<le> m" and "m < 9007199254740992"
  shows "fl (of_int m * 2 powi j) = of_int m * 2 powi j"
proof -
  let ?x = "of_int m * (2::real) powi j"
  have u: "0 < (2::real) powi j" by (simp add: zero_less_power_int)
  have m: "(4503599627370496::real) \<le> of_int m" "of_int m < (9007199254740992::real)"
    using assms by simp_all
  have pos: "0 < ?x" using u m by simp
  have "2 powi (j + 52) \<le> ?x"
    using pow52[of "j + 52"] u m by simp
  moreover have "?x < 2 powi (j + 52 + 1)"
    using pow53[of "j + 52"] u m by simp
  ultimately have e: "expo ?x = j + 52" by (rule expo_unique)
  have "?x / 2 powi (expo ?x - 52) = of_int m" using e u by simp
  then show ?thesis using fl_pos_repr(1)[OF pos] e by (simp add: rne_of_int)
qed

lemma fl_pow2: "fl (2 powi e) = 2 powi e"
  using fl_fix_norm[of 4503599627370496 "e - 52"] pow52[of e] by (simp add: mult.commute)

lemma fl_fix_pos:
  assumes "0 < m" and "m \<le> 9007199254740992"
  shows "fl (of_int m * 2 powi k) = of_int m * 2 powi k"
proof (cases "m = 9007199254740992")
  case True
  have "of_int m * (2::real) powi k = 2 powi (k + 53)"
    using True power_int_add[of "2::real" k 53] by simp
  then show ?thesis using fl_pow2[of "k + 53"] by simp
next
  case False
  with assms have lt: "m < 2 ^ 53" by simp
  let ?b = "bitlen m"
  from bitlen_bounds[OF assms(1)] have lo: "2 ^ nat (?b - 1) \<le> m" and hi: "m < 2 ^ nat ?b"
    by auto
  have b1: "1 \<le> ?b" using assms(1) by (simp add: bitlen_alt_def)
  have b53: "?b \<le> 53"
  proof (rule ccontr)
    assume "\<not> ?b \<le> 53"
    then have "53 \<le> nat (?b - 1)" by simp
    then have "(2::int) ^ 53 \<le> 2 ^ nat (?b - 1)" by (rule power_increasing) simp
    with lo lt show False by simp
  qed
  define s where "s = nat (53 - ?b)"
  define m' where "m' = m * 2 ^ s"
  have sb: "nat (?b - 1) + s = 52" "nat ?b + s = 53" using b1 b53 by (simp_all add: s_def)
  have "2 ^ nat (?b - 1) * 2 ^ s \<le> m'" using lo by (simp add: m'_def)
  then have lo': "4503599627370496 \<le> m'" using sb(1) by (simp add: power_add[symmetric])
  have "m' < 2 ^ nat ?b * 2 ^ s" using hi by (simp add: m'_def)
  then have hi': "m' < 9007199254740992" using sb(2) by (simp add: power_add[symmetric])
  have "(2::real) powi (int s + (k - int s)) = 2 powi int s * 2 powi (k - int s)"
    by (rule power_int_add) simp
  then have "(2::real) powi k = 2 ^ s * 2 powi (k - int s)" by simp
  then have "of_int m * (2::real) powi k = of_int m' * 2 powi (k - int s)"
    by (simp add: m'_def)
  then show ?thesis using fl_fix_norm[OF lo' hi', of "k - int s"] by simp
qed

lemma fl_of_int:
  assumes "\<bar>n\<bar> \<le> 9007199254740992"
  shows "fl (of_int n) = of_int n"
proof -
  consider "n = 0" | "0 < n" | "n < 0" by linarith
  then show ?thesis
  proof cases
    case 1
    then show ?thesis by (simp add: fl_zero)
  next
    case 2
    with assms fl_fix_pos[of n 0] show ?thesis by simp
  next
    case 3
    with assms fl_fix_pos[of "- n" 0] have "fl (of_int (- n)) = of_int (- n)" by simp
    then show ?thesis using fl_minus[of "of_int n"] by simp
  qed
qed

lemma fl_idem: "fl (fl x) = fl x"
proof -
  have pos: "fl (fl x) = fl x" if "0 < x" for x
  proof -
    let ?n = "rne (x / 2 powi (expo x - 52))"
    note r = fl_pos_repr[OF that]
    have "0 < ?n" using r(4) by simp
    then show ?thesis using fl_fix_pos[of ?n "expo x - 52"] r(1) r(5) by simp
  qed
  consider "x = 0" | "0 < x" | "x < 0" by linarith
  then show ?thesis
  proof cases
    case 1
    then show ?thesis by (simp add: fl_zero)
  next
    case 2
    then show ?thesis by (rule pos)
  next
    case 3
    then have "fl (fl (- x)) = fl (- x)" by (intro pos) simp
    then show ?thesis by (simp add: fl_minus)
  qed
qed

lemma fl_nearest_pos:
  assumes "0 < x" and "fl f = f"
  shows "\<bar>fl x - x\<bar> \<le> \<bar>f - x\<bar>"
proof -
  let ?e = "expo x"
  let ?u = "(2::real) powi (?e - 52)"
  let ?q = "x / ?u"
  let ?n = "rne ?q"
  note r = fl_pos_repr[OF assms(1)]
  have u: "0 < ?u" by (simp add: zero_less_power_int)
  have xq: "x = ?q * ?u" using u by simp
  have dist: "\<bar>fl x - x\<bar> = \<bar>of_int ?n - ?q\<bar> * ?u"
  proof -
    have "fl x - x = (of_int ?n - ?q) * ?u" using r(1) u by (simp add: field_simps)
    then show ?thesis using u by (simp add: abs_mult)
  qed
  have via: "\<bar>fl x - x\<bar> \<le> \<bar>of_int j - ?q\<bar> * ?u" for j
    unfolding dist using rne_nearest[of ?q j] u by (simp add: mult_right_mono)
  from expo_bounds[OF assms(1)] have xlo: "2 powi ?e \<le> x" and xhi: "x < 2 powi (?e + 1)" .
  consider "f \<le> 2 powi ?e" | "2 powi (?e + 1) \<le> f" | "2 powi ?e < f" "f < 2 powi (?e + 1)"
    by linarith
  then show ?thesis
  proof cases
    case 1
    have "\<bar>of_int 4503599627370496 - ?q\<bar> * ?u = x - 2 powi ?e"
      using r(2) u pow52[of ?e] by (simp add: abs_if field_simps)
    with via[of 4503599627370496] have "\<bar>fl x - x\<bar> \<le> x - 2 powi ?e" by simp
    with 1 xlo show ?thesis by linarith
  next
    case 2
    have "\<bar>of_int 9007199254740992 - ?q\<bar> * ?u = 2 powi (?e + 1) - x"
      using r(3) u pow53[of ?e] by (simp add: abs_if field_simps)
    with via[of 9007199254740992] have "\<bar>fl x - x\<bar> \<le> 2 powi (?e + 1) - x" by simp
    with 2 xhi show ?thesis by linarith
  next
    case 3
    have fpos: "0 < f" using 3(1) zero_less_power_int[of "2::real" ?e] by linarith
    have ef: "expo f = ?e" using 3 by (intro expo_unique) simp_all
    define j where "j = rne (f / ?u)"
    have "fl f = of_int j * ?u" using fl_pos_repr(1)[OF fpos] ef by (simp add: j_def)
    with assms(2) have f: "f = of_int j * ?u" by simp
    have "f - x = (of_int j - ?q) * ?u" using f u by (simp add: field_simps)
    then have "\<bar>f - x\<bar> = \<bar>of_int j - ?q\<bar> * ?u" using u by (simp add: abs_mult)
    with via[of j] show ?thesis by simp
  qed
qed

lemma fl_nearest:
  assumes "fl f = f"
  shows "\<bar>fl x - x\<bar> \<le> \<bar>f - x\<bar>"
proof -
  consider "x = 0" | "0 < x" | "x < 0" by linarith
  then show ?thesis
  proof cases
    case 1
    then show ?thesis by (simp add: fl_zero)
  next
    case 2
    then show ?thesis using assms by (rule fl_nearest_pos)
  next
    case 3
    have "fl (- f) = - f" using assms by (simp add: fl_minus)
    with 3 have "\<bar>fl (- x) - (- x)\<bar> \<le> \<bar>(- f) - (- x)\<bar>" by (intro fl_nearest_pos) simp_all
    then show ?thesis by (simp add: fl_minus abs_minus_commute)
  qed
qed

lemma fl_mono:
  assumes "x \<le> y"
  shows "fl x \<le> fl y"
proof (rule ccontr)
  assume "\<not> fl x \<le> fl y"
  then have lt: "fl y < fl x" by simp
  have a: "\<bar>fl x - x\<bar> \<le> \<bar>fl y - x\<bar>" by (rule fl_nearest) (rule fl_idem)
  have b: "\<bar>fl y - y\<bar> \<le> \<bar>fl x - y\<bar>" by (rule fl_nearest) (rule fl_idem)
  from a lt have "fl x + fl y \<le> 2 * x" by (auto simp: abs_if split: if_splits)
  moreover from b lt have "2 * y \<le> fl x + fl y" by (auto simp: abs_if split: if_splits)
  ultimately have "x = y" using assms by linarith
  with lt show False by simp
qed

lemma fl_nonneg: "0 \<le> x \<Longrightarrow> 0 \<le> fl x"
  using fl_mono[of 0 x] by (simp add: fl_zero)

lemma fl_one: "fl 1 = 1"
  using fl_of_int[of 1] by simp

lemma fl_below_mid:
  assumes "fl f = f" and "f < t" and "x < (f + t) / 2"
  shows "fl x < t"
proof (cases "x \<le> f")
  case True
  then have "fl x \<le> fl f" by (rule fl_mono)
  with assms(1,2) show ?thesis by simp
next
  case False
  from fl_nearest[OF assms(1), of x] False have "\<bar>fl x - x\<bar> \<le> x - f" by simp
  with assms(3) show ?thesis by (auto simp: abs_if split: if_splits)
qed

lemma below_mid_1: "(a::real) \<le> f \<Longrightarrow> f < t \<Longrightarrow> a < (f + t) / 2"
  by argo

lemma below_mid_2: "(a::real) \<le> t - d \<Longrightarrow> p / 2 < d \<Longrightarrow> f = t - p \<Longrightarrow> a < (f + t) / 2"
  by argo

lemma fl_scale_below:
  assumes "fl t = t" and "0 < t" and "u \<le> 1 - 1 / 9007199254740992"
  shows "fl (t * u) < t"
proof -
  let ?e = "expo t"
  let ?u = "(2::real) powi (?e - 52)"
  let ?n = "rne (t / ?u)"
  note r = fl_pos_repr[OF assms(2)]
  have u: "0 < ?u" by (simp add: zero_less_power_int)
  have t: "t = of_int ?n * ?u" using r(1) assms(1) by simp
  have "of_int ?n = t / ?u"
  proof (rule eq_divide_imp)
    show "?u \<noteq> 0" using u by simp
    show "of_int ?n * ?u = t" by (rule t[symmetric])
  qed
  with r(3) have nhi: "?n < 9007199254740992" by linarith
  have x: "t * u \<le> t - t / 9007199254740992"
  proof -
    have "t * u \<le> t * (1 - 1 / 9007199254740992)" using assms(2,3) by (simp add: mult_left_mono)
    then show ?thesis by (simp add: algebra_simps)
  qed
  show ?thesis
  proof (cases "?n = 4503599627370496")
    case True
    define f where "f = of_int 9007199254740991 * (2::real) powi (?e - 53)"
    have half: "(2::real) powi (?e - 53) = ?u / 2"
    proof -
      have "(2::real) powi ((?e - 53) + 1) = 2 powi (?e - 53) * 2 powi 1"
        by (rule power_int_add) simp
      then show ?thesis by simp
    qed
    have ff: "fl f = f" unfolding f_def by (rule fl_fix_norm) simp_all
    have tt: "t = 4503599627370496 * ?u" using t True by simp
    have fv: "f = t - ?u / 2" using tt by (simp add: f_def half)
    have "t / 9007199254740992 = ?u / 2" using tt by simp
    with x have "t * u \<le> f" using fv by simp
    moreover have "f < t" using fv u by linarith
    ultimately have "t * u < (f + t) / 2" by (rule below_mid_1)
    moreover note \<open>f < t\<close>
    ultimately show ?thesis using ff by (intro fl_below_mid[of f]) simp_all
  next
    case False
    with r(4) nhi have n: "4503599627370496 \<le> ?n - 1" "?n - 1 < 9007199254740992" by simp_all
    define f where "f = of_int (?n - 1) * ?u"
    have ff: "fl f = f" unfolding f_def using n by (rule fl_fix_norm)
    have fv: "f = t - ?u" using t by (simp add: f_def algebra_simps)
    have "(4503599627370496::real) < of_int ?n" using n(1) by simp
    then have "4503599627370496 * ?u < t" using t u by (metis mult_less_cancel_right_pos)
    then have "?u / 2 < t / 9007199254740992" by simp
    with x have "t * u < (f + t) / 2" using fv by (rule below_mid_2)
    moreover have "f < t" using fv u by linarith
    ultimately show ?thesis using ff by (intro fl_below_mid[of f]) simp_all
  qed
qed

section \<open>Lemmas about the selection engine\<close>

lemma lower_char_idem: "lower_char (lower_char c) = lower_char c"
  by (auto simp: lower_char_def)

lemma str_lower_idem: "str_lower (str_lower s) = str_lower s"
  by (simp add: str_lower_def lower_char_idem)

lemma fadd_ge_one: "0 \<le> a \<Longrightarrow> 1 \<le> x \<Longrightarrow> 1 \<le> fadd a x"
  using fl_mono[of 1 "a + x"] by (simp add: fadd_def fl_one)

lemma base_score_float: "fl (base_score tod mood row) = base_score tod mood row"
  by (simp add: base_score_def Let_def fadd_def fl_idem)

lemma final_score_floor: "1 \<le> final_score tod mood ld now row"
  by (simp add: final_score_def Let_def)

lemma final_score_none: "final_score tod mood None now row = max (base_score tod mood row) 1"
  by (simp add: final_score_def Let_def)

lemma final_score_recent:
  "minutes_since now t < 5 \<Longrightarrow>
   final_score tod mood (Some t) now row = max (fsub (base_score tod mood row) 5) 1"
  by (simp add: final_score_def Let_def)

lemma five_minutes: "fl (fl (299999999 / 1000000) / 60) < 5"
  by code_simp

lemma minutes_since_recent:
  assumes "now - t * 1000000 < 300000000"
  shows "minutes_since now t < 5"
proof -
  have "now - t * 1000000 \<le> 299999999" using assms by simp
  then have "(of_int (now - t * 1000000) :: real) \<le> 299999999"
    by (metis of_int_le_iff of_int_numeral)
  then have "of_int (now - t * 1000000) / 1000000 \<le> (299999999 / 1000000 :: real)"
    by (simp add: divide_right_mono)
  then have "total_seconds (now - t * 1000000) \<le> fl (299999999 / 1000000)"
    unfolding total_seconds_def by (rule fl_mono)
  then have "total_seconds (now - t * 1000000) / 60 \<le> fl (299999999 / 1000000) / 60"
    by (simp add: divide_right_mono)
  then have "minutes_since now t \<le> fl (fl (299999999 / 1000000) / 60)"
    unfolding minutes_since_def fdiv_def by (rule fl_mono)
  with five_minutes show ?thesis by linarith
qed


lemma row_score_floor: "1 \<le> row_score w mood row"
  by (simp add: row_score_def final_score_floor)

lemma weighted_scores: "map score (weighted_list w mood cands) = map (row_score w mood) cands"
  by (simp add: weighted_list_def comp_def)

lemma foldl_fadd_ge_one:
  "1 \<le> a \<Longrightarrow> (\<And>x. x \<in> set xs \<Longrightarrow> 1 \<le> x) \<Longrightarrow> 1 \<le> foldl fadd a xs"
proof (induction xs arbitrary: a)
  case Nil
  then show ?case by simp
next
  case (Cons x xs)
  have "1 \<le> fadd a x" using Cons.prems by (intro fadd_ge_one) simp_all
  then show ?case using Cons.IH[of "fadd a x"] Cons.prems by simp
qed

lemma plain_sum_ge_one:
  assumes "xs \<noteq> []" and "\<And>x. x \<in> set xs \<Longrightarrow> 1 \<le> x"
  shows "1 \<le> foldl fadd 0 xs"
proof -
  obtain x rest where xs: "xs = x # rest" using assms(1) by (cases xs) auto
  have "1 \<le> fadd 0 x" using assms(2) xs by (intro fadd_ge_one) simp_all
  then show ?thesis using foldl_fadd_ge_one[of "fadd 0 x" rest] assms(2) xs by simp
qed

lemma foldl_fadd_float: "fl a = a \<Longrightarrow> fl (foldl fadd a xs) = foldl fadd a xs"
  by (induction xs arbitrary: a) (simp_all add: fadd_def fl_idem)

lemma neumaier_float: "fl f = f \<Longrightarrow> fl (neumaier f c xs) = neumaier f c xs"
  by (induction f c xs rule: neumaier.induct) (simp_all add: Let_def fadd_def fl_idem)

lemma py_sum_float: "fl (py_sum impl xs) = py_sum impl xs"
  by (cases impl; cases xs)
     (simp_all add: py_sum_def foldl_fadd_float neumaier_float fl_zero fadd_def fl_idem)

text \<open>The value drawn: the total times the generator's value, rounded once.\<close>

lemma rng_random_range:
  "0 \<le> fst (rng_random g)" "fst (rng_random g) \<le> 1 - 1 / 9007199254740992"
proof -
  let ?k = "random_bits g (calls g) mod 9007199254740992"
  have k: "0 \<le> ?k" "?k \<le> 9007199254740991" by simp_all
  have "(0::real) \<le> of_int ?k" using k(1) by simp
  then show "0 \<le> fst (rng_random g)" by (simp add: rng_random_def)
  have "(of_int ?k :: real) \<le> 9007199254740991" using k(2) by (metis of_int_le_iff of_int_numeral)
  then show "fst (rng_random g) \<le> 1 - 1 / 9007199254740992"
    by (simp add: rng_random_def field_simps)
qed

lemma random_uniform_zero:
  assumes "fl t = t"
  shows "fst (random_uniform 0 t g) = fl (t * fst (rng_random g))"
    and "snd (random_uniform 0 t g) = g\<lparr>calls := Suc (calls g)\<rparr>"
  using assms
  by (simp_all add: random_uniform_def rng_random_def fadd_def fmul_def fsub_def fl_idem
      split: prod.splits)

lemma draw_value_range:
  assumes "fl t = t" and "0 < t"
  shows "0 \<le> fst (random_uniform 0 t g)" and "fst (random_uniform 0 t g) < t"
proof -
  have "0 \<le> t * fst (rng_random g)" using assms(2) rng_random_range(1)[of g] by simp
  then show "0 \<le> fst (random_uniform 0 t g)"
    unfolding random_uniform_zero(1)[OF assms(1)] by (rule fl_nonneg)
  show "fst (random_uniform 0 t g) < t"
    unfolding random_uniform_zero(1)[OF assms(1)]
    using assms rng_random_range(2)[of g] by (rule fl_scale_below)
qed

lemma find_map_comp: "find P (map f xs) = map_option f (find (\<lambda>x. P (f x)) xs)"
  by (induction xs) auto

lemma upt_Suc_shift: "[0..<Suc n] = 0 # map Suc [0..<n]"
  by (simp add: upt_conv_Cons map_Suc_upt del: upt_Suc)

lemma draw_loop_find:
  "draw_loop r a wl =
     map_option (\<lambda>i. wl ! i)
       (find (\<lambda>i. foldl fadd a (take (Suc i) (map score wl)) \<ge> r) [0..<length wl])"
proof (induction wl arbitrary: a)
  case Nil
  then show ?case by simp
next
  case (Cons x wl)
  have shift: "[0..<length (x # wl)] = 0 # map Suc [0..<length wl]"
    using upt_Suc_shift[of "length wl"] by simp
  show ?case
  proof (cases "r \<le> fadd a (score x)")
    case True
    then show ?thesis unfolding shift by simp
  next
    case False
    have "draw_loop r a (x # wl) = draw_loop r (fadd a (score x)) wl" using False by simp
    also have "\<dots> = map_option (\<lambda>i. wl ! i)
        (find (\<lambda>i. foldl fadd (fadd a (score x)) (take (Suc i) (map score wl)) \<ge> r)
           [0..<length wl])"
      by (rule Cons.IH)
    also have "\<dots> = map_option (\<lambda>i. (x # wl) ! i)
        (find (\<lambda>i. foldl fadd a (take (Suc i) (map score (x # wl))) \<ge> r)
           [0..<length (x # wl)])"
      unfolding shift using False
      by (simp add: find_map_comp option.map_comp comp_def)
    finally show ?thesis .
  qed
qed

lemma draw_loop_first_reaching:
  "draw_loop r 0 wl = map_option (\<lambda>i. wl ! i) (first_reaching r (map score wl))"
  by (simp add: draw_loop_find first_reaching_def running_sum_def)

lemma first_reaching_bound: "first_reaching r xs = Some i \<Longrightarrow> i < length xs"
  unfolding first_reaching_def by (auto simp: find_Some_iff)

lemma first_reaching_some:
  assumes "xs \<noteq> []" and "r \<le> running_sum xs (length xs - 1)"
  shows "\<exists>i. first_reaching r xs = Some i"
proof -
  have "length xs - 1 \<in> set [0..<length xs]" using assms(1) by simp
  with assms(2) have "find (\<lambda>i. running_sum xs i \<ge> r) [0..<length xs] \<noteq> None"
    unfolding find_None_iff by blast
  then show ?thesis by (auto simp: first_reaching_def)
qed

lemma draw_loop_member: "draw_loop r u wl = Some item \<Longrightarrow> item \<in> set wl"
  by (induction wl arbitrary: u) (auto split: if_splits)

lemma weighted_nth:
  "i < length cands \<Longrightarrow>
   item_tuple (weighted_list w mood cands ! i) =
     (media_id (cands ! i), customer_id (cands ! i), file_path (cands ! i),
      media_type (cands ! i))"
  by (simp add: weighted_list_def item_tuple_def)

lemma pick_empty:
  assumes "candidate_ads w (str_lower age) (str_lower gen) = []"
  shows "pick_weighted_media w g age gen mood = (None, g)"
  using assms by (simp add: pick_weighted_media_def Let_def)

lemma pick_unfold:
  assumes "candidate_ads w (str_lower age) (str_lower gen) \<noteq> []"
  shows "pick_weighted_media w g age gen mood =
     (map_option item_tuple
        (draw_loop (draw_value w g mood (candidate_ads w (str_lower age) (str_lower gen))) 0
           (weighted_list w mood (candidate_ads w (str_lower age) (str_lower gen)))),
      g\<lparr>calls := Suc (calls g)\<rparr>)"
proof -
  let ?C = "candidate_ads w (str_lower age) (str_lower gen)"
  let ?T = "py_sum (sum_impl w) (map score (weighted_list w mood ?C))"
  have T: "?T = draw_total w mood ?C" by (simp add: draw_total_def weighted_scores)
  have "random_uniform 0 ?T g = (draw_value w g mood ?C, g\<lparr>calls := Suc (calls g)\<rparr>)"
    using random_uniform_zero(2)[OF py_sum_float, of "sum_impl w" "map score (weighted_list w mood ?C)" g]
    unfolding T draw_value_def by (metis prod.collapse)
  then show ?thesis using assms by (simp add: pick_weighted_media_def Let_def)
qed

lemma pick_rows:
  assumes "candidate_ads w (str_lower age) (str_lower gen) \<noteq> []"
  shows "fst (pick_weighted_media w g age gen mood) =
     (case first_reaching (draw_value w g mood (candidate_ads w (str_lower age) (str_lower gen)))
             (map (row_score w mood) (candidate_ads w (str_lower age) (str_lower gen))) of
        None \<Rightarrow> None
      | Some i \<Rightarrow>
          Some (media_id (candidate_ads w (str_lower age) (str_lower gen) ! i),
                customer_id (candidate_ads w (str_lower age) (str_lower gen) ! i),
                file_path (candidate_ads w (str_lower age) (str_lower gen) ! i),
                media_type (candidate_ads w (str_lower age) (str_lower gen) ! i)))"
proof -
  let ?C = "candidate_ads w (str_lower age) (str_lower gen)"
  let ?r = "draw_value w g mood ?C"
  show ?thesis
  proof (cases "first_reaching ?r (map (row_score w mood) ?C)")
    case None
    then show ?thesis
      using pick_unfold[OF assms, of g mood]
      by (simp add: draw_loop_first_reaching weighted_scores)
  next
    case (Some i)
    then have "i < length ?C" using first_reaching_bound[OF Some] by simp
    then show ?thesis
      using pick_unfold[OF assms, of g mood] Some
      by (simp add: draw_loop_first_reaching weighted_scores weighted_nth)
  qed
qed

lemma plain_total:
  assumes "sum_impl w = PlainSum" and "cands \<noteq> []"
  shows "draw_total w mood cands
           = running_sum (map (row_score w mood) cands) (length cands - 1)"
    and "1 \<le> draw_total w mood cands"
proof -
  have "Suc (length cands - 1) = length cands" using assms(2) by simp
  then show "draw_total w mood cands
           = running_sum (map (row_score w mood) cands) (length cands - 1)"
    using assms(1) by (simp add: draw_total_def py_sum_def running_sum_def)
  have "1 \<le> foldl fadd 0 (map (row_score w mood) cands)"
    using assms(2) by (intro plain_sum_ge_one) (auto simp: row_score_floor)
  then show "1 \<le> draw_total w mood cands"
    using assms(1) by (simp add: draw_total_def py_sum_def)
qed

lemma draw_total_float: "fl (draw_total w mood cands) = draw_total w mood cands"
  by (simp add: draw_total_def py_sum_float)

section \<open>The concrete kiosks, evaluated\<close>

lemma lower_examples:
  "str_lower ''18-29'' = ''18-29''" "str_lower ''Female'' = ''female''"
  "str_lower ''female'' = ''female''" "str_lower ''happy'' = ''happy''"
  "str_lower ''neutral'' = ''neutral''" "str_lower ''none'' = ''none''"
  "str_lower ''image/jpg'' = ''image/jpg''"
  by code_simp+

lemma kiosk_candidates: "candidate_ads kiosk ''18-29'' ''female'' = [row_a]"
  by (simp add: candidate_ads_def kiosk_def row_a_def row_b_def)

lemma kiosk_candidates_lower:
  "candidate_ads kiosk (str_lower ''18-29'') (str_lower ''Female'') = [row_a]"
  by (simp add: lower_examples kiosk_candidates)

lemma kiosk_host: "host_device_id kiosk = ''kiosk''"
  by (simp add: kiosk_def)

lemma kiosk_pick_fst:
  "fst (pick_weighted_media kiosk half_rng ''18-29'' ''Female'' ''happy'')
     = Some (1, ''c1'', ''a.jpg'', ''image/jpg'')"
  by code_simp

lemma busy_candidates:
  "candidate_ads busy_kiosk (str_lower ''18-29'') (str_lower ''Female'')
     = [row_1, row_2, row_3, row_4]"
  by (simp add: lower_examples candidate_ads_def busy_kiosk_def row_1_def row_2_def row_3_def
      row_4_def row_b_def)

lemma busy_candidates_312:
  "candidate_ads busy_kiosk_312 (str_lower ''18-29'') (str_lower ''Female'')
     = [row_1, row_2, row_3, row_4]"
  using busy_candidates by (simp add: candidate_ads_def busy_kiosk_312_def)

lemma busy_score_1:
  "row_score busy_kiosk ''happy'' row_1 = 4741915107652185 / 1125899906842624"
  by code_simp

lemma busy_score_2: "row_score busy_kiosk ''happy'' row_2 = 4"
  by code_simp

lemma busy_score_3:
  "row_score busy_kiosk ''happy'' row_3 = 4025092166962381 / 1125899906842624"
  by code_simp

lemma busy_score_4:
  "row_score busy_kiosk ''happy'' row_4 = 2398166801574789 / 1125899906842624"
  by code_simp

lemma busy_score_312: "row_score busy_kiosk_312 mood row = row_score busy_kiosk mood row"
  by (simp add: row_score_def busy_kiosk_312_def)

lemma busy_step_1:
  "fadd 0 (4741915107652185 / 1125899906842624) = 4741915107652185 / 1125899906842624"
  by code_simp

lemma busy_step_2:
  "fadd (4741915107652185 / 1125899906842624) 4 = 1155689341877835 / 140737488355328"
  by code_simp

lemma busy_step_3:
  "fadd (1155689341877835 / 140737488355328) (4025092166962381 / 1125899906842624)
     = 3317651725496265 / 281474976710656"
  by code_simp

lemma busy_step_4:
  "fadd (3317651725496265 / 281474976710656) (2398166801574789 / 1125899906842624)
     = 1958596712944981 / 140737488355328"
  by code_simp

lemma busy_compensated:
  "neumaier (4741915107652185 / 1125899906842624) 0
     [4, 4025092166962381 / 1125899906842624, 2398166801574789 / 1125899906842624]
   = 3917193425889963 / 281474976710656"
  by code_simp

lemma half_rng_value: "fst (rng_random half_rng) = 1 / 2"
  by (simp add: rng_random_def half_rng_def)

lemma max_rng_value: "fst (rng_random max_rng) = 9007199254740991 / 9007199254740992"
  by (simp add: rng_random_def max_rng_def)

lemma busy_draw_half:
  "fl (1958596712944981 / 140737488355328 * (1 / 2)) = 1958596712944981 / 281474976710656"
  by code_simp

lemma busy_draw_max:
  "fl (3917193425889963 / 281474976710656 * (9007199254740991 / 9007199254740992))
     = 7834386851779925 / 562949953421312"
  by code_simp

lemma busy_scores:
  "map (row_score busy_kiosk ''happy'') [row_1, row_2, row_3, row_4]
     = [4741915107652185 / 1125899906842624, 4, 4025092166962381 / 1125899906842624,
        2398166801574789 / 1125899906842624]"
  by (simp add: busy_score_1 busy_score_2 busy_score_3 busy_score_4)

lemma busy_running:
  "running_sum [4741915107652185 / 1125899906842624, 4, 4025092166962381 / 1125899906842624,
                2398166801574789 / 1125899906842624] 0
     = 4741915107652185 / 1125899906842624"
  "running_sum [4741915107652185 / 1125899906842624, 4, 4025092166962381 / 1125899906842624,
                2398166801574789 / 1125899906842624] (Suc 0)
     = 1155689341877835 / 140737488355328"
  "running_sum [4741915107652185 / 1125899906842624, 4, 4025092166962381 / 1125899906842624,
                2398166801574789 / 1125899906842624] (Suc (Suc 0))
     = 3317651725496265 / 281474976710656"
  "running_sum [4741915107652185 / 1125899906842624, 4, 4025092166962381 / 1125899906842624,
                2398166801574789 / 1125899906842624] (Suc (Suc (Suc 0)))
     = 1958596712944981 / 140737488355328"
  by (simp_all add: running_sum_def busy_step_1 busy_step_2 busy_step_3 busy_step_4)

lemma four_positions: "[0..<length [a, b, c, d]] = [0, Suc 0, Suc (Suc 0), Suc (Suc (Suc 0))]"
  by (simp add: upt_rec)

lemma busy_total_plain:
  "draw_total busy_kiosk ''happy'' [row_1, row_2, row_3, row_4]
     = 1958596712944981 / 140737488355328"
proof -
  have "sum_impl busy_kiosk = PlainSum" by (simp add: busy_kiosk_def)
  then show ?thesis
    by (simp add: draw_total_def py_sum_def busy_score_1 busy_score_2 busy_score_3 busy_score_4
        busy_step_1 busy_step_2 busy_step_3 busy_step_4)
qed

lemma busy_total_compensated:
  "draw_total busy_kiosk_312 ''happy'' [row_1, row_2, row_3, row_4]
     = 3917193425889963 / 281474976710656"
proof -
  have "sum_impl busy_kiosk_312 = CompensatedSum" by (simp add: busy_kiosk_312_def)
  then show ?thesis
    by (simp add: draw_total_def py_sum_def busy_score_312 busy_score_1 busy_score_2
        busy_score_3 busy_score_4 busy_step_1 busy_compensated del: neumaier.simps)
qed

lemma busy_value_half:
  "draw_value busy_kiosk half_rng ''happy'' [row_1, row_2, row_3, row_4]
     = 1958596712944981 / 281474976710656"
  unfolding draw_value_def random_uniform_zero(1)[OF draw_total_float]
  by (simp only: busy_total_plain half_rng_value busy_draw_half)

lemma busy_value_max:
  "draw_value busy_kiosk_312 max_rng ''happy'' [row_1, row_2, row_3, row_4]
     = 7834386851779925 / 562949953421312"
  unfolding draw_value_def random_uniform_zero(1)[OF draw_total_float]
  by (simp only: busy_total_compensated max_rng_value busy_draw_max)

lemma busy_first_half:
  "first_reaching (draw_value busy_kiosk half_rng ''happy'' [row_1, row_2, row_3, row_4])
     (map (row_score busy_kiosk ''happy'') [row_1, row_2, row_3, row_4]) = Some 1"
  unfolding busy_value_half busy_scores first_reaching_def four_positions
  by (simp add: busy_running)

lemma busy_first_max:
  "first_reaching (draw_value busy_kiosk_312 max_rng ''happy'' [row_1, row_2, row_3, row_4])
     (map (row_score busy_kiosk_312 ''happy'') [row_1, row_2, row_3, row_4]) = None"
  unfolding busy_value_max busy_score_312 busy_scores first_reaching_def four_positions
  by (simp add: busy_running)

section \<open>Claims about the selection engine\<close>

text \<open>
  C1. Whatever \<open>pick_weighted_media\<close> returns comes from a row of the \<open>media\<close> table
  whose \<open>age_range\<close> and \<open>gender\<close> equal the event's lowercased values (hence are equal
  to the event's values up to case) and whose \<open>device_id\<close> is the host's: no row outside
  the filter is ever returned.
\<close>

theorem pick_weighted_media_within_filter:
  assumes "pick_weighted_media w g age gen mood = (Some (mid, cust, path, mtype), g')"
  shows "\<exists>row \<in> set (media w).
           media_id row = mid \<and> customer_id row = cust \<and> file_path row = path
           \<and> media_type row = mtype
           \<and> age_range row = str_lower age \<and> gender row = str_lower gen
           \<and> device_id row = host_device_id w
           \<and> str_lower (age_range row) = str_lower age
           \<and> str_lower (gender row) = str_lower gen"
proof -
  let ?cands = "candidate_ads w (str_lower age) (str_lower gen)"
  let ?wl = "weighted_list w mood ?cands"
  have ne: "?cands \<noteq> []"
  proof
    assume "?cands = []"
    then have "pick_weighted_media w g age gen mood = (None, g)" by (rule pick_empty)
    with assms show False by simp
  qed
  let ?r = "draw_value w g mood ?cands"
  have "map_option item_tuple (draw_loop ?r 0 ?wl) = Some (mid, cust, path, mtype)"
    using pick_unfold[OF ne, of g mood] assms by simp
  then obtain item where
    d: "draw_loop ?r 0 ?wl = Some item" and t: "item_tuple item = (mid, cust, path, mtype)"
    by (cases "draw_loop ?r 0 ?wl") auto
  from draw_loop_member[OF d] obtain row where
    row: "row \<in> set ?cands" and
    it: "item_media_id item = media_id row" "item_customer_id item = customer_id row"
        "item_file_path item = file_path row" "item_media_type item = media_type row"
    by (auto simp: weighted_list_def)
  from row have f: "row \<in> set (media w)" "age_range row = str_lower age"
    "gender row = str_lower gen" "device_id row = host_device_id w"
    by (auto simp: candidate_ads_def)
  from t it have "media_id row = mid" "customer_id row = cust" "file_path row = path"
    "media_type row = mtype" by (auto simp: item_tuple_def)
  with f show ?thesis by (auto simp: str_lower_idem)
qed

lemma kiosk_pick:
  "pick_weighted_media kiosk half_rng ''18-29'' ''Female'' ''happy'' =
     (Some (1, ''c1'', ''a.jpg'', ''image/jpg''), half_rng\<lparr>calls := 1\<rparr>)"
proof -
  have ne: "candidate_ads kiosk (str_lower ''18-29'') (str_lower ''Female'') \<noteq> []"
    by (simp add: kiosk_candidates_lower)
  have "snd (pick_weighted_media kiosk half_rng ''18-29'' ''Female'' ''happy'')
          = half_rng\<lparr>calls := 1\<rparr>"
    using pick_unfold[OF ne, of half_rng "''happy''"] by (simp add: half_rng_def)
  with kiosk_pick_fst show ?thesis by (metis prod.collapse)
qed

theorem pick_weighted_media_within_filter_witness:
  "pick_weighted_media kiosk half_rng ''18-29'' ''Female'' ''happy'' =
     (Some (1, ''c1'', ''a.jpg'', ''image/jpg''), half_rng\<lparr>calls := 1\<rparr>)
   \<and> (\<exists>row \<in> set (media kiosk).
         media_id row = 1 \<and> age_range row = ''18-29'' \<and> gender row = ''female''
         \<and> device_id row = ''kiosk'')"
proof -
  have "\<exists>row \<in> set (media kiosk).
         media_id row = 1 \<and> age_range row = ''18-29'' \<and> gender row = ''female''
         \<and> device_id row = ''kiosk''"
    using pick_weighted_media_within_filter[OF kiosk_pick]
    by (auto simp: lower_examples kiosk_host)
  with kiosk_pick show ?thesis by blast
qed

text \<open>
  C2, as amended. With at least one candidate, \<open>pick_weighted_media\<close> calls the
  random number generator exactly once, and its result is the first candidate, in the
  order of the query, whose running sum of final scores reaches the value drawn \<open>r\<close>, or
  \<open>None\<close> when no running sum reaches it. The value drawn lies in \<open>[0, T)\<close> whenever the
  total \<open>T\<close> that \<open>sum\<close> returns is positive. With the plain left-to-right \<open>sum\<close> the
  total is positive and a candidate is always returned.
\<close>

theorem pick_weighted_media_single_scan:
  assumes "candidate_ads w (str_lower age) (str_lower gen) \<noteq> []"
  shows "snd (pick_weighted_media w g age gen mood) = g\<lparr>calls := calls g + 1\<rparr>
    \<and> fst (pick_weighted_media w g age gen mood) =
        (case first_reaching
                (draw_value w g mood (candidate_ads w (str_lower age) (str_lower gen)))
                (map (row_score w mood) (candidate_ads w (str_lower age) (str_lower gen))) of
           None \<Rightarrow> None
         | Some i \<Rightarrow>
             Some (media_id (candidate_ads w (str_lower age) (str_lower gen) ! i),
                   customer_id (candidate_ads w (str_lower age) (str_lower gen) ! i),
                   file_path (candidate_ads w (str_lower age) (str_lower gen) ! i),
                   media_type (candidate_ads w (str_lower age) (str_lower gen) ! i)))
    \<and> (0 < draw_total w mood (candidate_ads w (str_lower age) (str_lower gen)) \<longrightarrow>
          0 \<le> draw_value w g mood (candidate_ads w (str_lower age) (str_lower gen))
          \<and> draw_value w g mood (candidate_ads w (str_lower age) (str_lower gen))
              < draw_total w mood (candidate_ads w (str_lower age) (str_lower gen)))
    \<and> (sum_impl w = PlainSum \<longrightarrow>
          0 < draw_total w mood (candidate_ads w (str_lower age) (str_lower gen))
          \<and> fst (pick_weighted_media w g age gen mood) \<noteq> None)"
proof -
  let ?C = "candidate_ads w (str_lower age) (str_lower gen)"
  let ?T = "draw_total w mood ?C"
  let ?r = "draw_value w g mood ?C"
  let ?xs = "map (row_score w mood) ?C"
  have one: "snd (pick_weighted_media w g age gen mood) = g\<lparr>calls := calls g + 1\<rparr>"
    using pick_unfold[OF assms, of g mood] by simp
  note scan = pick_rows[OF assms, of g mood]
  have range: "0 \<le> ?r \<and> ?r < ?T" if "0 < ?T"
    using draw_value_range[OF draw_total_float that, of g] by (simp add: draw_value_def)
  have plain: "0 < ?T \<and> fst (pick_weighted_media w g age gen mood) \<noteq> None"
    if p: "sum_impl w = PlainSum"
  proof -
    from plain_total[OF p assms, of mood]
    have last: "?T = running_sum ?xs (length ?C - 1)" and ge: "1 \<le> ?T" by simp_all
    have pos: "0 < ?T" using ge by linarith
    have "?r \<le> running_sum ?xs (length ?xs - 1)" using range[OF pos] last by simp
    moreover have "?xs \<noteq> []" using assms by simp
    ultimately obtain i where "first_reaching ?r ?xs = Some i"
      using first_reaching_some[of ?xs ?r] by blast
    with scan have "fst (pick_weighted_media w g age gen mood) \<noteq> None" by simp
    with pos show ?thesis by simp
  qed
  from one scan range plain show ?thesis by blast
qed

theorem pick_weighted_media_single_scan_witness:
  "snd (pick_weighted_media busy_kiosk half_rng ''18-29'' ''Female'' ''happy'')
     = half_rng\<lparr>calls := 1\<rparr>
   \<and> fst (pick_weighted_media busy_kiosk half_rng ''18-29'' ''Female'' ''happy'')
     = Some (12, ''c2'', ''two.jpg'', ''image/png'')
   \<and> draw_value busy_kiosk half_rng ''happy'' [row_1, row_2, row_3, row_4]
     < draw_total busy_kiosk ''happy'' [row_1, row_2, row_3, row_4]"
proof -
  have ne: "candidate_ads busy_kiosk (str_lower ''18-29'') (str_lower ''Female'') \<noteq> []"
    by (simp add: busy_candidates)
  have plain: "sum_impl busy_kiosk = PlainSum" by (simp add: busy_kiosk_def)
  have calls: "calls half_rng + 1 = 1" by (simp add: half_rng_def)
  have second: "media_id row_2 = 12" "customer_id row_2 = ''c2''" "file_path row_2 = ''two.jpg''"
    "media_type row_2 = ''image/png''" by (simp_all add: row_2_def)
  from pick_weighted_media_single_scan[OF ne, of half_rng "''happy''"]
  show ?thesis
    unfolding busy_candidates busy_first_half
    using plain calls second by simp
qed

text \<open>
  C2, as stated, fails where \<open>sum\<close> is compensated: with four candidates and the
  generator's largest value the total is one unit in the last place above the last
  running sum, the value drawn lies between the two, and no candidate is returned.
\<close>

theorem pick_weighted_media_returns_no_candidate_counterexample:
  "candidate_ads busy_kiosk_312 (str_lower ''18-29'') (str_lower ''Female'')
     = [row_1, row_2, row_3, row_4]
   \<and> fst (pick_weighted_media busy_kiosk_312 max_rng ''18-29'' ''Female'' ''happy'') = None"
proof -
  have ne: "candidate_ads busy_kiosk_312 (str_lower ''18-29'') (str_lower ''Female'') \<noteq> []"
    by (simp add: busy_candidates_312)
  have "fst (pick_weighted_media busy_kiosk_312 max_rng ''18-29'' ''Female'' ''happy'') = None"
    unfolding pick_rows[OF ne] busy_candidates_312 busy_first_max by simp
  with busy_candidates_312 show ?thesis by simp
qed




lemma cooldown_le: "fsub (base_score tod mood row) 5 \<le> base_score tod mood row"
proof -
  have "fl (base_score tod mood row - 5) \<le> fl (base_score tod mood row)"
    by (rule fl_mono) simp
  then show ?thesis by (simp add: fsub_def base_score_float)
qed

lemma cooldown_strict:
  assumes "1 < base_score tod mood row" and "base_score tod mood row \<le> 9007199254740992"
  shows "fsub (base_score tod mood row) 5 < base_score tod mood row"
proof -
  let ?b = "base_score tod mood row"
  define f where "f = \<lceil>?b\<rceil> - 1"
  have below: "of_int f < ?b" unfolding f_def by linarith
  have above: "?b \<le> of_int f + 1" unfolding f_def by simp
  have "1 \<le> f" using assms(1) unfolding f_def by linarith
  moreover have "f < 9007199254740992"
  proof -
    have "(of_int f :: real) < of_int 9007199254740992" using below assms(2) by simp
    then show ?thesis by (simp only: of_int_less_iff)
  qed
  ultimately have "\<bar>f\<bar> \<le> 9007199254740992" by simp
  then have exact: "fl (of_int f) = of_int f" by (rule fl_of_int)
  have "fl (?b - 5) \<le> fl (of_int f)" using above by (intro fl_mono) linarith
  with exact below show ?thesis by (simp add: fsub_def)
qed

text \<open>
  C4, as amended. A candidate whose last play is less than 5 minutes old never scores
  higher than the same candidate without play history. When the score without history
  is at most \<open>2^53\<close>, the recently played candidate scores strictly lower exactly when
  the score without history is above the floor 1.
\<close>

theorem recent_play_scores_lower_above_floor:
  assumes "now - t * 1000000 < 300000000"
  shows "final_score tod mood (Some t) now row \<le> final_score tod mood None now' row
    \<and> (final_score tod mood None now' row \<le> 9007199254740992 \<longrightarrow>
         (final_score tod mood (Some t) now row < final_score tod mood None now' row)
           = (1 < final_score tod mood None now' row))"
proof -
  let ?b = "base_score tod mood row"
  have recent: "final_score tod mood (Some t) now row = max (fsub ?b 5) 1"
    using minutes_since_recent[OF assms] by (rule final_score_recent)
  have none: "final_score tod mood None now' row = max ?b 1" by (rule final_score_none)
  have le: "max (fsub ?b 5) 1 \<le> max ?b 1" using cooldown_le[of tod mood row] by simp
  have iff: "(max (fsub ?b 5) 1 < max ?b 1) = (1 < max ?b 1)" if "max ?b 1 \<le> 9007199254740992"
  proof (cases "1 < ?b")
    case True
    with that have "?b \<le> 9007199254740992" by simp
    with True have "fsub ?b 5 < ?b" by (rule cooldown_strict)
    with True show ?thesis by simp
  next
    case False
    then show ?thesis using cooldown_le[of tod mood row] by simp
  qed
  from le iff show ?thesis unfolding recent none by blast
qed

lemma row_a_without_history: "final_score ''morning'' ''happy'' None 1000000000 row_a = 5"
  by code_simp

theorem recent_play_scores_lower_above_floor_witness:
  "final_score ''morning'' ''happy'' (Some 940) 1000000000 row_a
     < final_score ''morning'' ''happy'' None 1000000000 row_a"
proof -
  have recent: "(1000000000::int) - 940 * 1000000 < 300000000" by simp
  from recent_play_scores_lower_above_floor[OF recent, of "''morning''" "''happy''" row_a
      1000000000]
  show ?thesis by (simp add: row_a_without_history)
qed

text \<open>
  C4, as stated, fails: a row with profit score 0 and no matching bonus has final score 1
  both when it was played one minute ago and when it was never played.
\<close>

theorem recent_play_not_strictly_lower_counterexample:
  "(1000000000::int) - 940 * 1000000 < 300000000
   \<and> \<not> (final_score ''morning'' ''happy'' (Some 940) 1000000000 row_zero
          < final_score ''morning'' ''happy'' None 1000000000 row_zero)"
  by code_simp

text \<open>
  The bound \<open>2^53\<close> is needed: at profit score \<open>2^57\<close> the subtraction of 5 rounds
  back to the score, and the recently played candidate scores the same.
\<close>

lemma cooldown_absorbed_at_large_profit:
  "final_score ''morning'' ''happy'' (Some 940) 1000000000 row_huge
     = final_score ''morning'' ''happy'' None 1000000000 row_huge
   \<and> 1 < final_score ''morning'' ''happy'' None 1000000000 row_huge"
  by code_simp

text \<open>
  C10, as amended. For a nonempty candidate list the draw loop returns one of the
  candidates for every \<open>r\<close> up to the running sum at the last candidate. With the plain
  left-to-right \<open>sum\<close> the total is that running sum, and \<open>pick_weighted_media\<close>
  returns one of the candidates and never falls through to \<open>None\<close>.
\<close>

theorem draw_falls_through_only_past_last_running_sum:
  assumes "candidate_ads w (str_lower age) (str_lower gen) \<noteq> []"
  shows "(\<forall>r. r \<le> running_sum
                   (map (row_score w mood) (candidate_ads w (str_lower age) (str_lower gen)))
                   (length (candidate_ads w (str_lower age) (str_lower gen)) - 1) \<longrightarrow>
            (\<exists>row \<in> set (candidate_ads w (str_lower age) (str_lower gen)).
               map_option item_tuple
                 (draw_loop r 0
                    (weighted_list w mood (candidate_ads w (str_lower age) (str_lower gen))))
               = Some (media_id row, customer_id row, file_path row, media_type row)))
    \<and> (sum_impl w = PlainSum \<longrightarrow>
          draw_total w mood (candidate_ads w (str_lower age) (str_lower gen))
            = running_sum
                (map (row_score w mood) (candidate_ads w (str_lower age) (str_lower gen)))
                (length (candidate_ads w (str_lower age) (str_lower gen)) - 1)
          \<and> (\<exists>row \<in> set (candidate_ads w (str_lower age) (str_lower gen)).
                fst (pick_weighted_media w g age gen mood)
                = Some (media_id row, customer_id row, file_path row, media_type row)))"
proof -
  let ?C = "candidate_ads w (str_lower age) (str_lower gen)"
  let ?xs = "map (row_score w mood) ?C"
  let ?wl = "weighted_list w mood ?C"
  have loop: "\<exists>row \<in> set ?C. map_option item_tuple (draw_loop r 0 ?wl)
                = Some (media_id row, customer_id row, file_path row, media_type row)"
    if "r \<le> running_sum ?xs (length ?C - 1)" for r
  proof -
    have "?xs \<noteq> []" using assms by simp
    moreover have "r \<le> running_sum ?xs (length ?xs - 1)" using that by simp
    ultimately obtain i where i: "first_reaching r ?xs = Some i"
      using first_reaching_some[of ?xs r] by blast
    then have b: "i < length ?C" using first_reaching_bound[OF i] by simp
    then have "?C ! i \<in> set ?C" by simp
    moreover have "map_option item_tuple (draw_loop r 0 ?wl)
        = Some (media_id (?C ! i), customer_id (?C ! i), file_path (?C ! i),
                media_type (?C ! i))"
      using i b by (simp add: draw_loop_first_reaching weighted_scores weighted_nth)
    ultimately show ?thesis by blast
  qed
  have plain: "draw_total w mood ?C = running_sum ?xs (length ?C - 1)
      \<and> (\<exists>row \<in> set ?C. fst (pick_weighted_media w g age gen mood)
            = Some (media_id row, customer_id row, file_path row, media_type row))"
    if p: "sum_impl w = PlainSum"
  proof -
    from plain_total[OF p assms, of mood]
    have last: "draw_total w mood ?C = running_sum ?xs (length ?C - 1)"
      and ge: "1 \<le> draw_total w mood ?C" by simp_all
    have "0 < draw_total w mood ?C" using ge by linarith
    from draw_value_range(2)[OF draw_total_float this, of g]
    have "draw_value w g mood ?C \<le> running_sum ?xs (length ?C - 1)"
      using last by (simp add: draw_value_def)
    from loop[OF this] show ?thesis
      using pick_unfold[OF assms, of g mood] last by simp
  qed
  from loop plain show ?thesis by blast
qed

theorem draw_falls_through_only_past_last_running_sum_witness:
  "fst (pick_weighted_media busy_kiosk half_rng ''18-29'' ''Female'' ''happy'') \<noteq> None
   \<and> draw_loop 13 0 (weighted_list busy_kiosk ''happy'' [row_1, row_2, row_3, row_4]) \<noteq> None"
proof -
  have ne: "candidate_ads busy_kiosk (str_lower ''18-29'') (str_lower ''Female'') \<noteq> []"
    by (simp add: busy_candidates)
  have plain: "sum_impl busy_kiosk = PlainSum" by (simp add: busy_kiosk_def)
  have r: "13 \<le> running_sum (map (row_score busy_kiosk ''happy'') [row_1, row_2, row_3, row_4])
                   (length [row_1, row_2, row_3, row_4] - 1)"
    unfolding busy_scores by (simp add: busy_running)
  note inst = draw_falls_through_only_past_last_running_sum[OF ne, of "''happy''" half_rng,
      unfolded busy_candidates]
  note loop = inst[THEN conjunct1, rule_format, OF r]
  note pick = inst[THEN conjunct2, rule_format, OF plain, THEN conjunct2]
  from pick obtain row where "row \<in> set [row_1, row_2, row_3, row_4]" and
    "fst (pick_weighted_media busy_kiosk half_rng ''18-29'' ''Female'' ''happy'')
       = Some (media_id row, customer_id row, file_path row, media_type row)" ..
  then have a: "fst (pick_weighted_media busy_kiosk half_rng ''18-29'' ''Female'' ''happy'')
      \<noteq> None" by simp
  from loop obtain row' where "row' \<in> set [row_1, row_2, row_3, row_4]" and
    "map_option item_tuple
       (draw_loop 13 0 (weighted_list busy_kiosk ''happy'' [row_1, row_2, row_3, row_4]))
     = Some (media_id row', customer_id row', file_path row', media_type row')" ..
  then have "draw_loop 13 0 (weighted_list busy_kiosk ''happy'' [row_1, row_2, row_3, row_4])
      \<noteq> None" by auto
  with a show ?thesis by simp
qed

text \<open>
  C10, as stated, fails where \<open>sum\<close> is compensated: with the four candidates and the
  generator's largest value, the value drawn is within \<open>[0, total]\<close> and the loop falls
  through to \<open>None\<close>.
\<close>

theorem draw_falls_through_counterexample:
  "0 \<le> draw_value busy_kiosk_312 max_rng ''happy'' [row_1, row_2, row_3, row_4]
   \<and> draw_value busy_kiosk_312 max_rng ''happy'' [row_1, row_2, row_3, row_4]
       \<le> draw_total busy_kiosk_312 ''happy'' [row_1, row_2, row_3, row_4]
   \<and> draw_loop (draw_value busy_kiosk_312 max_rng ''happy'' [row_1, row_2, row_3, row_4]) 0
        (weighted_list busy_kiosk_312 ''happy'' [row_1, row_2, row_3, row_4]) = None"
proof -
  have "draw_loop (draw_value busy_kiosk_312 max_rng ''happy'' [row_1, row_2, row_3, row_4]) 0
        (weighted_list busy_kiosk_312 ''happy'' [row_1, row_2, row_3, row_4]) = None"
    unfolding draw_loop_first_reaching weighted_scores busy_first_max by simp
  then show ?thesis by (simp add: busy_value_max busy_total_compensated)
qed

section \<open>Lemmas about the playback controller\<close>

lemma start_new_ad_stage:
  "current_stage (start_new_ad env path mtype s) = current_stage s
   \<or> current_stage (start_new_ad env path mtype s) = FADING_IN"
  by (simp add: start_new_ad_def begin_fade_in_def Let_def split: option.splits)

lemma start_new_ad_queue: "ad_queue (start_new_ad env path mtype s) = ad_queue s"
  by (simp add: start_new_ad_def begin_fade_in_def Let_def split: option.splits)

lemma update_fade_stage:
  assumes "update_fade env s = Inr s'"
  shows "current_stage s' = current_stage s \<or> current_stage s' = next_stage (current_stage s)"
proof (cases "current_stage s")
  case IDLE
  show ?thesis
  proof (cases "ad_queue s")
    case Nil
    with IDLE assms show ?thesis by (simp add: update_fade_def)
  next
    case (Cons e rest)
    obtain path mtype where e: "e = (path, mtype)" by (cases e)
    from IDLE Cons e assms
    have s': "s' = start_new_ad env path mtype (s\<lparr>ad_queue := rest\<rparr>)"
      by (simp add: update_fade_def)
    from start_new_ad_stage[of env path mtype "s\<lparr>ad_queue := rest\<rparr>"] IDLE
    show ?thesis unfolding s' by simp
  qed
next
  case FADING_IN
  with assms show ?thesis by (auto simp: update_fade_def Let_def split: if_splits)
next
  case HOLDING
  with assms show ?thesis
    by (auto simp: update_fade_def Let_def split: if_splits option.splits)
next
  case FADING_OUT
  with assms show ?thesis
    by (auto simp: update_fade_def Let_def split: if_splits option.splits media_handle.splits)
qed

lemma update_fade_queue:
  assumes "update_fade env s = Inr s'"
  shows "length (ad_queue s') \<le> length (ad_queue s)"
proof (cases "current_stage s")
  case IDLE
  with assms show ?thesis
    by (auto simp: update_fade_def start_new_ad_queue split: list.splits)
next
  case FADING_IN
  with assms show ?thesis by (auto simp: update_fade_def Let_def split: if_splits)
next
  case HOLDING
  with assms show ?thesis
    by (auto simp: update_fade_def Let_def split: if_splits option.splits)
next
  case FADING_OUT
  with assms show ?thesis
    by (auto simp: update_fade_def Let_def split: if_splits option.splits media_handle.splits)
qed

lemma handler_stage:
  "current_stage (snd (handle_client_connection isfile d s)) = current_stage s"
  by (simp add: handle_client_connection_def Let_def)

lemma handler_queue_bound:
  "length (ad_queue s) \<le> MAX_QUEUE_SIZE \<Longrightarrow>
   length (ad_queue (snd (handle_client_connection isfile d s))) \<le> MAX_QUEUE_SIZE"
  by (simp add: handle_client_connection_def Let_def)

lemma handler_full_queue:
  "MAX_QUEUE_SIZE \<le> length (ad_queue s) \<Longrightarrow>
   ad_queue (snd (handle_client_connection isfile d s)) = ad_queue s"
  by (simp add: handle_client_connection_def Let_def)

lemma handler_serial:
  "handle_client_connection isfile d s =
     (case handler_begin isfile d s of
        (Appending path mtype, out, s') \<Rightarrow> (Returned, handler_append path mtype s')
      | (Received d', out, s') \<Rightarrow> (out, s')
      | (Finished, out, s') \<Rightarrow> (out, s'))"
  by (simp add: handle_client_connection_def handler_begin_def handler_append_def Let_def)

lemma one_queued_tick:
  "update_fade tick_load one_queued =
     Inr (start_new_ad tick_load ''/media/a.jpg'' ''image'' (one_queued\<lparr>ad_queue := []\<rparr>))"
  by (simp add: update_fade_def one_queued_def initial_playback_def)

lemma one_queued_started:
  "current_stage (start_new_ad tick_load ''/media/a.jpg'' ''image'' (one_queued\<lparr>ad_queue := []\<rparr>))
     = FADING_IN"
  by (simp add: start_new_ad_def begin_fade_in_def one_queued_def initial_playback_def
      tick_load_def)

section \<open>Claims about the playback controller\<close>

text \<open>
  C5. One call of \<open>update_fade\<close> that returns leaves the stage as it is or moves it to
  the single successor of the cycle Idle, FadingIn, Holding, FadingOut, Idle; the command
  handler never changes the stage. This holds from every state, reachable or not.
\<close>

theorem stage_follows_linear_cycle:
  assumes "update_fade env s = Inr s'"
  shows "(current_stage s' = current_stage s \<or> current_stage s' = next_stage (current_stage s))
    \<and> current_stage (snd (handle_client_connection isfile d s)) = current_stage s"
  using update_fade_stage[OF assms] handler_stage[of isfile d s] by simp

theorem stage_follows_linear_cycle_witness:
  "current_stage one_queued = IDLE
   \<and> current_stage
        (start_new_ad tick_load ''/media/a.jpg'' ''image'' (one_queued\<lparr>ad_queue := []\<rparr>))
      = next_stage (current_stage one_queued)"
proof -
  have idle: "current_stage one_queued = IDLE"
    by (simp add: one_queued_def initial_playback_def)
  from stage_follows_linear_cycle[OF one_queued_tick] idle one_queued_started
  show ?thesis by simp
qed

section \<open>Where the code departs from the specification\<close>

lemma split_sep_nonempty: "split_sep sep s \<noteq> []"
  by (induction s) (auto split: list.splits)

lemma last_split_sep_no_sep: "sep \<notin> set (last (split_sep sep s))"
proof (induction s)
  case Nil
  then show ?case by simp
next
  case (Cons c cs)
  show ?case
  proof (cases "c = sep")
    case True
    with Cons split_sep_nonempty[of sep cs] show ?thesis by simp
  next
    case False
    obtain w ws where sp: "split_sep sep cs = w # ws"
      using split_sep_nonempty[of sep cs] by (cases "split_sep sep cs") auto
    with Cons False show ?thesis by (cases ws) auto
  qed
qed

text \<open>
  C6. The queue does not stay within its capacity. The handlers run on threads of their
  own and test the length of the queue before they append, with nothing that keeps
  another handler from running in between: after four commands handled one after the
  other, two connections whose handlers both test the length (4) before either appends
  leave the queue with 6 entries, above \<open>MAX_QUEUE_SIZE\<close>.
\<close>

theorem racing_handlers_overfill_queue:
  "MAX_QUEUE_SIZE = 5
   \<and> map fst (ad_queue (shared (controller_exec (\<lambda>p. True) racing_events initial_controller)))
       = [''/media/1.jpg'', ''/media/2.jpg'', ''/media/3.mp4'', ''/media/4.jpg'',
          ''/media/5.jpg'', ''/media/6.jpg'']
   \<and> length (ad_queue (shared (controller_exec (\<lambda>p. True) racing_events initial_controller)))
       = 6"
  by code_simp

text \<open>
  C7. The handler does not take everything after the first colon: it takes the text
  after the last colon. For the command \<open>SHOW_IMAGE:/media/a:b.jpg\<close> the payload is
  \<open>/media/a:b.jpg\<close>, but the handler looks for the file \<open>b.jpg\<close>: when only the file
  named by the payload exists the command is dropped, and when \<open>b.jpg\<close> exists it is
  \<open>b.jpg\<close> that is queued.
\<close>

theorem handler_takes_text_after_last_colon:
  "payload_spec ''SHOW_IMAGE:/media/a:b.jpg'' = ''/media/a:b.jpg''
   \<and> ad_queue (snd (handle_client_connection (\<lambda>p. p = ''/media/a:b.jpg'')
                      ''SHOW_IMAGE:/media/a:b.jpg'' initial_playback)) = []
   \<and> ad_queue (snd (handle_client_connection (\<lambda>p. p = ''b.jpg'')
                      ''SHOW_IMAGE:/media/a:b.jpg'' initial_playback)) = [(''b.jpg'', ''image'')]"
  by code_simp

text \<open>
  C8. A controller that holds an open video receives \<open>QUIT\<close>: the handler quits pygame
  and raises \<open>SystemExit\<close>, and the capture of the video is still open afterwards. The
  end of \<open>main_loop\<close>, taken when the window is closed, does release it.
\<close>

theorem quit_command_leaves_capture_open:
  "is_video video_session \<and> video_player video_session = Some 0
   \<and> map cap_opened (players video_session) = [True]
   \<and> fst (handle_client_connection (\<lambda>p. True) ''QUIT'' video_session) = SystemExit 0
   \<and> map cap_opened (players (snd (handle_client_connection (\<lambda>p. True) ''QUIT'' video_session)))
       = [True]
   \<and> map cap_opened (players (snd (main_loop_exit video_session))) = [False]"
  by code_simp

text \<open>
  C9. With the media root \<open>/app/media\<close>, \<open>store_media\<close> accepts the file
  \<open>/app/media2/a.jpg\<close> (its path starts with the root's text) and stores it as
  \<open>../media2/a.jpg\<close>; \<open>play_media\<close> then resolves that row to \<open>/app/media2/a.jpg\<close>,
  which is outside the root, and sends the command for it.
\<close>

theorem play_media_dispatches_path_outside_root:
  "map file_path (media (store_media empty_kiosk ''c9'' ''18-29'' ''Female''
                           ''/app/media2/a.jpg'' ''image/jpg'' 5)) = [''../media2/a.jpg'']
   \<and> fst (play_media (\<lambda>p. True)
            (store_media empty_kiosk ''c9'' ''18-29'' ''Female'' ''/app/media2/a.jpg''
               ''image/jpg'' 5)
            half_rng ''18-29'' ''Female'' ''happy'')
       = Some ''SHOW_IMAGE:/app/media2/a.jpg''
   \<and> \<not> inside_root (media_dir empty_kiosk) ''/app/media2/a.jpg''"
  by code_simp

end
